theory Spec2Isabelle
  imports Main
begin

section \<open>Data model: tasks, lists and their nested-mapping form\<close>

text \<open>
  The storage layer of simple-todo (\<^verbatim>\<open>src/simple_todo/storage.py\<close>) keeps an ordered
  collection of to-do lists in memory and rewrites one JSON document after every change.
  The entities it stores come from \<^verbatim>\<open>models.py\<close>, which \<^verbatim>\<open>storage.py\<close> imports
  (\<^verbatim>\<open>from .models import TodoList, Task\<close>) and whose text is not part of the sources at
  hand; the entities and their list-scoped operations are therefore written down from the
  specification (sections 3 and 4.1), each under a comment that says so.

  Strings are \<^typ>\<open>string\<close>; a character stands for one code point below 256. The parsed
  form of a JSON document is the datatype \<open>json\<close>; a Python \<^verbatim>\<open>dict\<close> is an association
  list read with \<^const>\<open>map_of\<close>.
\<close>

datatype json =
    JNull
  | JBool bool
  | JNum int
  | JStr string
  | JArr "json list"
  | JObj "(string \<times> json) list"

text \<open>
  Modelled from the spec: the entity \<^verbatim>\<open>Task\<close> of \<^verbatim>\<open>models.py\<close>
  (\<^verbatim>\<open>{id: string, title: string, completed: boolean}\<close>). The field \<^verbatim>\<open>id\<close> is named
  \<open>task_id\<close> here, \<^const>\<open>id\<close> being the identity function of HOL.
\<close>

record Task =
  task_id :: string
  title :: string
  completed :: bool

text \<open>
  Modelled from the spec: the entity \<^verbatim>\<open>TodoList\<close> of \<^verbatim>\<open>models.py\<close>
  (\<^verbatim>\<open>{id: string, name: string, tasks: ordered sequence of Task}\<close>); \<^verbatim>\<open>id\<close> is
  \<open>list_id\<close> here.
\<close>

record TodoList =
  list_id :: string
  name :: string
  tasks :: "Task list"

text \<open>
  Modelled from the spec: \<^verbatim>\<open>Task.to_dict\<close> of \<^verbatim>\<open>models.py\<close>; each serialized task
  carries \<^verbatim>\<open>id\<close>, \<^verbatim>\<open>title\<close>, \<^verbatim>\<open>completed\<close>.
\<close>

definition Task_to_dict :: "Task \<Rightarrow> json" where
  "Task_to_dict t =
     JObj [(''id'', JStr (task_id t)), (''title'', JStr (title t)),
           (''completed'', JBool (completed t))]"

fun as_str :: "json option \<Rightarrow> string option" where
  "as_str (Some (JStr s)) = Some s"
| "as_str _ = None"

fun as_bool :: "json option \<Rightarrow> bool option" where
  "as_bool (Some (JBool b)) = Some b"
| "as_bool _ = None"

text \<open>
  Modelled from the spec: \<^verbatim>\<open>Task.from_dict\<close> of \<^verbatim>\<open>models.py\<close>, the inverse of
  \<^verbatim>\<open>to_dict\<close> on a mapping that carries the three fields with their types. The spec
  says nothing about any other value; \<open>None\<close> stands for "not described", not for a
  Python \<^verbatim>\<open>None\<close>.
\<close>

definition Task_from_dict :: "json \<Rightarrow> Task option" where
  "Task_from_dict data =
     (case data of
        JObj d \<Rightarrow>
          (case as_str (map_of d ''id'') of
             None \<Rightarrow> None
           | Some i \<Rightarrow>
               (case as_str (map_of d ''title'') of
                  None \<Rightarrow> None
                | Some t \<Rightarrow>
                    (case as_bool (map_of d ''completed'') of
                       None \<Rightarrow> None
                     | Some c \<Rightarrow> Some \<lparr>task_id = i, title = t, completed = c\<rparr>)))
      | _ \<Rightarrow> None)"

text \<open>
  Modelled from the spec: \<^verbatim>\<open>TodoList.to_dict\<close> of \<^verbatim>\<open>models.py\<close>; each serialized
  list carries its \<^verbatim>\<open>id\<close>, \<^verbatim>\<open>name\<close> and the sequence of its serialized tasks in list
  order.
\<close>

definition TodoList_to_dict :: "TodoList \<Rightarrow> json" where
  "TodoList_to_dict l =
     JObj [(''id'', JStr (list_id l)), (''name'', JStr (name l)),
           (''tasks'', JArr (map Task_to_dict (tasks l)))]"

text \<open>
  The tasks entry of a serialized list: a missing entry is the empty sequence
  (\<^verbatim>\<open>data.get("tasks", [])\<close>), a sequence is read task by task.
\<close>

fun tasks_entry :: "json option \<Rightarrow> Task list option" where
  "tasks_entry None = Some []"
| "tasks_entry (Some (JArr ts)) = those (map Task_from_dict ts)"
| "tasks_entry (Some _) = None"

text \<open>
  Modelled from the spec: \<^verbatim>\<open>TodoList.from_dict\<close> of \<^verbatim>\<open>models.py\<close>; it reads
  \<^verbatim>\<open>id\<close>, \<^verbatim>\<open>name\<close> and the tasks, and "must tolerate a missing/empty tasks sequence
  (treat as empty)". As for tasks, \<open>None\<close> stands for a value the spec does not describe.
\<close>

definition TodoList_from_dict :: "json \<Rightarrow> TodoList option" where
  "TodoList_from_dict data =
     (case data of
        JObj d \<Rightarrow>
          (case as_str (map_of d ''id'') of
             None \<Rightarrow> None
           | Some i \<Rightarrow>
               (case as_str (map_of d ''name'') of
                  None \<Rightarrow> None
                | Some n \<Rightarrow>
                    (case tasks_entry (map_of d ''tasks'') of
                       None \<Rightarrow> None
                     | Some ts \<Rightarrow> Some \<lparr>list_id = i, name = n, tasks = ts\<rparr>)))
      | _ \<Rightarrow> None)"

section \<open>Python strings: trimming, prefixes, integers\<close>

text \<open>
  \<^verbatim>\<open>str.strip()\<close> removes the leading and trailing characters for which
  \<^verbatim>\<open>str.isspace()\<close> holds; below 256 these are the code points 9 to 13, 28 to 32, 133
  and 160.
\<close>

definition isspace :: "char \<Rightarrow> bool" where
  "isspace c =
     (let n = (of_char c :: nat)
      in (9 \<le> n \<and> n \<le> 13) \<or> (28 \<le> n \<and> n \<le> 32) \<or> n = 133 \<or> n = 160)"

definition strip :: "string \<Rightarrow> string" where
  "strip s = rev (dropWhile isspace (rev (dropWhile isspace s)))"

definition startswith :: "string \<Rightarrow> string \<Rightarrow> bool" where
  "startswith s p = (take (length p) s = p)"

text \<open>
  \<^verbatim>\<open>int(s)\<close> in base 10. The white space it skips at both ends is narrower than that
  of \<^verbatim>\<open>strip\<close> (the code points 28 to 31 are not skipped); then come an optional sign
  and decimal digits, where a single underscore may stand between two digits. Anything
  else raises \<^verbatim>\<open>ValueError\<close>, here \<open>None\<close>. Python integers are unbounded, but the
  interpreter limits the number of digits it converts: a text of more than
  \<^verbatim>\<open>sys.get_int_max_str_digits()\<close> digits raises \<^verbatim>\<open>ValueError\<close> too. That limit is 4300
  unless the interpreter is told otherwise, which this program does not do; the
  interpreter never tests it on 640 digits or fewer. Underscores, sign and white space do
  not count as digits, leading zeros do. The limit is tested here before the digits are
  read; a text that is no integer is \<open>None\<close> in either order.
\<close>

definition int_max_str_digits :: nat where
  "int_max_str_digits = 4300"

definition int_space :: "char \<Rightarrow> bool" where
  "int_space c =
     (let n = (of_char c :: nat)
      in (9 \<le> n \<and> n \<le> 13) \<or> n = 32 \<or> n = 133 \<or> n = 160)"

definition is_digit :: "char \<Rightarrow> bool" where
  "is_digit c = (let n = (of_char c :: nat) in 48 \<le> n \<and> n \<le> 57)"

definition digit_val :: "char \<Rightarrow> int" where
  "digit_val c = int (of_char c) - 48"

fun digits_value :: "int \<Rightarrow> string \<Rightarrow> int option" where
  "digits_value acc [] = Some acc"
| "digits_value acc [c] =
     (if is_digit c then Some (10 * acc + digit_val c) else None)"
| "digits_value acc (c # d # cs) =
     (if is_digit c then digits_value (10 * acc + digit_val c) (d # cs)
      else if c = CHR ''_'' \<and> is_digit d then digits_value (10 * acc + digit_val d) cs
      else None)"

definition exceeds_limit :: "string \<Rightarrow> bool" where
  "exceeds_limit s =
     (let n = length (filter is_digit s)
      in 640 < n \<and> 0 < int_max_str_digits \<and> int_max_str_digits < n)"

definition unsigned_int :: "string \<Rightarrow> int option" where
  "unsigned_int s =
     (case s of
        [] \<Rightarrow> None
      | d # ds \<Rightarrow>
          if is_digit d
          then (if exceeds_limit s then None else digits_value (digit_val d) ds)
          else None)"

definition py_int :: "string \<Rightarrow> int option" where
  "py_int s =
     (case rev (dropWhile int_space (rev (dropWhile int_space s))) of
        [] \<Rightarrow> None
      | c # cs \<Rightarrow>
          if c = CHR ''-'' then map_option uminus (unsigned_int cs)
          else if c = CHR ''+'' then unsigned_int cs
          else unsigned_int (c # cs))"

text \<open>
  \<^verbatim>\<open>str(n)\<close>, as the f-string \<^verbatim>\<open>f"List {num}"\<close> formats its number. (The limit on
  digits holds for this conversion too, from 4301 digits on; the number that
  \<^verbatim>\<open>create_list\<close> formats is at most one more than the number of lists, see
  \<open>next_available_bound\<close> below, so that it is out of reach here.)
\<close>

fun digits_of :: "nat \<Rightarrow> string" where
  "digits_of n =
     (if n < 10 then [char_of (48 + n)]
      else digits_of (n div 10) @ [char_of (48 + n mod 10)])"

declare digits_of.simps [simp del]

definition py_str :: "int \<Rightarrow> string" where
  "py_str i = (if i < 0 then CHR ''-'' # digits_of (nat (- i)) else digits_of (nat i))"

section \<open>Automatic list names\<close>

text \<open>
  The first loop of \<^verbatim>\<open>create_list\<close> collects into \<^verbatim>\<open>existing_nums\<close> the integer read
  from the rest of every name that starts with \<^verbatim>\<open>"List "\<close>, and skips a name whose rest
  is no integer or has too many digits (\<^verbatim>\<open>except ValueError: pass\<close>). The Python set
  is a list here: the code only asks it for membership.
\<close>

definition existing_nums :: "TodoList list \<Rightarrow> int list" where
  "existing_nums ls =
     List.map_filter
       (\<lambda>l. if startswith (name l) ''List '' then py_int (drop 5 (name l)) else None) ls"

text \<open>
  The second loop: \<^verbatim>\<open>while num in existing_nums: num += 1\<close>. It ends because every
  round leaves one collected number fewer at or above \<open>num\<close>.
\<close>

function next_available :: "int list \<Rightarrow> int \<Rightarrow> int" where
  "next_available nums num =
     (if num \<in> set nums then next_available nums (num + 1) else num)"
  by pat_completeness auto
termination
proof (relation "measure (\<lambda>(nums, num). length (filter (\<lambda>k. num \<le> k) nums))")
  show "wf (measure (\<lambda>(nums, num). length (filter (\<lambda>k. num \<le> k) nums)))"
    by simp
next
  fix nums :: "int list" and num :: int
  assume mem: "num \<in> set nums"
  have "filter (\<lambda>k. num + 1 \<le> k) nums
        = filter (\<lambda>k. num + 1 \<le> k) (filter (\<lambda>k. num \<le> k) nums)"
    by (simp add: conj_commute cong: filter_cong) (rule filter_cong, auto)
  moreover have "length (filter (\<lambda>k. num + 1 \<le> k) (filter (\<lambda>k. num \<le> k) nums))
        < length (filter (\<lambda>k. num \<le> k) nums)"
    by (rule length_filter_less [of num]) (use mem in auto)
  ultimately show "((nums, num + 1), (nums, num))
        \<in> measure (\<lambda>(nums, num). length (filter (\<lambda>k. num \<le> k) nums))"
    by simp
qed

declare next_available.simps [simp del]

definition auto_name :: "TodoList list \<Rightarrow> string" where
  "auto_name ls = ''List '' @ py_str (next_available (existing_nums ls) 1)"

section \<open>List-scoped task operations\<close>

text \<open>
  Modelled from the spec: \<^verbatim>\<open>TodoList.add_task\<close> of \<^verbatim>\<open>models.py\<close>: "constructs a
  new Task with a freshly generated unique id, the given title, and completed = false;
  appends it to the end of the task sequence; returns it". The generated id is the
  argument \<open>new_id\<close>, drawn by the caller's environment.
\<close>

definition TodoList_add_task :: "string \<Rightarrow> string \<Rightarrow> TodoList \<Rightarrow> Task \<times> TodoList" where
  "TodoList_add_task new_id ttl l =
     (let task = \<lparr>task_id = new_id, title = ttl, completed = False\<rparr>
      in (task, l\<lparr>tasks := tasks l @ [task]\<rparr>))"

text \<open>
  Modelled from the spec: \<^verbatim>\<open>TodoList.get_task\<close> of \<^verbatim>\<open>models.py\<close>: "returns the task
  with matching id, or signals not found". The result is the position of the first such
  task, which is what a later assignment to one of its attributes changes.
\<close>

definition TodoList_get_task :: "string \<Rightarrow> TodoList \<Rightarrow> nat option" where
  "TodoList_get_task tid l =
     (let i = length (takeWhile (\<lambda>t. task_id t \<noteq> tid) (tasks l))
      in if i < length (tasks l) then Some i else None)"

text \<open>
  Modelled from the spec: \<^verbatim>\<open>TodoList.remove_task\<close> of \<^verbatim>\<open>models.py\<close>: "removes the
  first task with matching id if present, returns whether a removal occurred".
\<close>

definition TodoList_remove_task :: "string \<Rightarrow> TodoList \<Rightarrow> bool \<times> TodoList" where
  "TodoList_remove_task tid l =
     (let i = length (takeWhile (\<lambda>t. task_id t \<noteq> tid) (tasks l))
      in if i < length (tasks l)
         then (True, l\<lparr>tasks := take i (tasks l) @ drop (Suc i) (tasks l)\<rparr>)
         else (False, l))"

section \<open>The JSON text that is written\<close>

text \<open>
  \<^verbatim>\<open>json.dump(data, f, indent=2, ensure_ascii=False)\<close>: every nesting level is indented
  by two more spaces, an empty sequence or mapping is written without a line break, and
  inside a string only the quote, the backslash and the control characters below 32 are
  escaped; every other character, also one above 127, is written as it is.
\<close>

definition hex_digit :: "nat \<Rightarrow> char" where
  "hex_digit n = (if n < 10 then char_of (48 + n) else char_of (87 + n))"

definition escape_char :: "char \<Rightarrow> string" where
  "escape_char c =
     (let n = (of_char c :: nat)
      in if n = 34 then [char_of (92 :: nat), char_of (34 :: nat)]
         else if n = 92 then [char_of (92 :: nat), char_of (92 :: nat)]
         else if n = 10 then [char_of (92 :: nat), CHR ''n'']
         else if n = 13 then [char_of (92 :: nat), CHR ''r'']
         else if n = 9 then [char_of (92 :: nat), CHR ''t'']
         else if n = 8 then [char_of (92 :: nat), CHR ''b'']
         else if n = 12 then [char_of (92 :: nat), CHR ''f'']
         else if n < 32
           then [char_of (92 :: nat), CHR ''u'', CHR ''0'', CHR ''0'',
                 hex_digit (n div 16), hex_digit (n mod 16)]
         else [c])"

definition json_string :: "string \<Rightarrow> string" where
  "json_string s = char_of (34 :: nat) # concat (map escape_char s) @ [char_of (34 :: nat)]"

definition newline_indent :: "nat \<Rightarrow> string" where
  "newline_indent level = char_of (10 :: nat) # replicate (2 * level) CHR '' ''"

fun join :: "string \<Rightarrow> string list \<Rightarrow> string" where
  "join sep [] = []"
| "join sep [x] = x"
| "join sep (x # y # ys) = x @ sep @ join sep (y # ys)"

fun json_dump :: "nat \<Rightarrow> json \<Rightarrow> string" where
  "json_dump level JNull = ''null''"
| "json_dump level (JBool b) = (if b then ''true'' else ''false'')"
| "json_dump level (JNum i) = py_str i"
| "json_dump level (JStr s) = json_string s"
| "json_dump level (JArr []) = ''[]''"
| "json_dump level (JArr (x # xs)) =
     ''['' @ newline_indent (Suc level)
       @ join ('','' @ newline_indent (Suc level)) (map (json_dump (Suc level)) (x # xs))
       @ newline_indent level @ '']''"
| "json_dump level (JObj []) = ''{}''"
| "json_dump level (JObj (kv # kvs)) =
     ''{'' @ newline_indent (Suc level)
       @ join ('','' @ newline_indent (Suc level))
           (map (\<lambda>p. json_string (fst p) @ '': '' @ json_dump (Suc level) (snd p)) (kv # kvs))
       @ newline_indent level @ ''}''"

section \<open>Environment, memory and files\<close>

text \<open>
  A path is kept as it is built: \<^verbatim>\<open>Path(x)\<close> is \<open>Path x\<close> and \<^verbatim>\<open>p / "name"\<close> is
  \<open>Slash p ''name''\<close>.
\<close>

datatype path = Path string | Slash path string

text \<open>
  The exceptions that can leave the storage layer. \<open>OSError\<close> is Python's \<^verbatim>\<open>IOError\<close>
  and stands for its subclasses too; \<open>FromDictError\<close> is whatever \<^verbatim>\<open>from_dict\<close> raises
  on a value the spec does not describe (it is none of the two exceptions that
  \<^verbatim>\<open>_load\<close> catches).
\<close>

datatype exn =
    OSError
  | JSONDecodeError
  | UnicodeDecodeError
  | AttributeError
  | TypeError
  | FromDictError

text \<open>
  Where the operating system lets a call down, if anywhere: creating the directory,
  opening the data file for reading, creating the temporary file, writing it (after so
  many characters), or renaming it.
\<close>

datatype fault = NoFault | MkdirFails | OpenFails | MkstempFails | WriteFails nat | ReplaceFails

text \<open>
  What a call takes from outside the program: the environment variable, the expansion of
  \<^verbatim>\<open>~/.local/share\<close>, the library's JSON reader (decoding and parsing the bytes of a
  file, or raising), the fault of this call, the random infixes \<^verbatim>\<open>mkstemp\<close> tries in
  turn, and the identifier that the next new \<^verbatim>\<open>TodoList\<close> or \<^verbatim>\<open>Task\<close> draws.
\<close>

record env =
  XDG_DATA_HOME :: "string option"
  home_share :: string
  json_load :: "string \<Rightarrow> exn + json"
  fault :: fault
  tmp_names :: "string list"
  uuid :: string

text \<open>
  The state: the attributes of the \<^verbatim>\<open>Storage\<close> object (\<open>lists\<close> is \<^verbatim>\<open>self._lists\<close>, a
  sequence of references), the \<^verbatim>\<open>TodoList\<close> objects in memory by address, the next
  free address, and the files by path. A list object holds its tasks by value: no claim
  looks at a task through a second reference. The content of a file is the text written
  to it (its encoding as UTF-8 is left to \<^verbatim>\<open>open\<close>) or, for a file found on disk, its
  bytes; what reading makes of a content is the answer of \<open>json_load\<close>.
\<close>

type_synonym addr = nat

record state =
  data_dir :: path
  data_file :: path
  lists :: "addr list"
  objs :: "addr \<Rightarrow> TodoList"
  next_addr :: addr
  files :: "path \<Rightarrow> string option"

definition collection :: "state \<Rightarrow> TodoList list" where
  "collection s = map (objs s) (lists s)"

section \<open>Loading and saving\<close>

definition ensure_data_dir :: "env \<Rightarrow> exn option" where
  "ensure_data_dir e = (if fault e = MkdirFails then Some OSError else None)"

text \<open>Iterating over a parsed value, as the list comprehension of \<^verbatim>\<open>_load\<close> does.\<close>

fun py_iter :: "json \<Rightarrow> exn + json list" where
  "py_iter (JArr xs) = Inr xs"
| "py_iter (JStr s) = Inr (map (\<lambda>c. JStr [c]) s)"
| "py_iter (JObj kvs) = Inr (map (\<lambda>p. JStr (fst p)) kvs)"
| "py_iter _ = Inl TypeError"

text \<open>The body of the \<^verbatim>\<open>try\<close> of \<^verbatim>\<open>_load\<close>: open, parse, read every list entry.\<close>

definition try_load :: "env \<Rightarrow> string \<Rightarrow> exn + TodoList list" where
  "try_load e content =
     (if fault e = OpenFails then Inl OSError
      else case json_load e content of
             Inl x \<Rightarrow> Inl x
           | Inr data \<Rightarrow>
               (case data of
                  JObj d \<Rightarrow>
                    (case py_iter (case map_of d ''lists'' of None \<Rightarrow> JArr [] | Some v \<Rightarrow> v) of
                       Inl x \<Rightarrow> Inl x
                     | Inr entries \<Rightarrow>
                         (case those (map TodoList_from_dict entries) of
                            None \<Rightarrow> Inl FromDictError
                          | Some ls \<Rightarrow> Inr ls))
                | _ \<Rightarrow> Inl AttributeError))"

text \<open>New objects for the lists read, at the next free addresses and in order.\<close>

definition alloc_all :: "TodoList list \<Rightarrow> state \<Rightarrow> addr list \<times> state" where
  "alloc_all ls s =
     (let n = next_addr s
      in ([n ..< n + length ls],
          s\<lparr>objs := (\<lambda>a. if n \<le> a \<and> a < n + length ls then ls ! (a - n) else objs s a),
            next_addr := n + length ls\<rparr>))"

definition load :: "env \<Rightarrow> state \<Rightarrow> exn option \<times> state" where
  "load e s =
     (case files s (data_file s) of
        None \<Rightarrow> (None, s\<lparr>lists := []\<rparr>)
      | Some content \<Rightarrow>
          (case try_load e content of
             Inr ls \<Rightarrow> (case alloc_all ls s of (as, s1) \<Rightarrow> (None, s1\<lparr>lists := as\<rparr>))
           | Inl x \<Rightarrow>
               if x = JSONDecodeError \<or> x = OSError then (None, s\<lparr>lists := []\<rparr>)
               else (Some x, s)))"

text \<open>
  \<^verbatim>\<open>tempfile.mkstemp(dir=..., suffix=".tmp")\<close> creates, empty, the first file of the form
  \<^verbatim>\<open>tmp<random>.tmp\<close> that does not exist yet, and gives up with an \<^verbatim>\<open>OSError\<close>
  (\<^verbatim>\<open>FileExistsError\<close>) when every name it tries is taken.
\<close>

definition mkstemp ::
  "env \<Rightarrow> path \<Rightarrow> (path \<Rightarrow> string option) \<Rightarrow> exn + path \<times> (path \<Rightarrow> string option)" where
  "mkstemp e dir fs =
     (if fault e = MkstempFails then Inl OSError
      else case find (\<lambda>r. fs (Slash dir (''tmp'' @ r @ ''.tmp'')) = None) (tmp_names e) of
             None \<Rightarrow> Inl OSError
           | Some r \<Rightarrow>
               Inr (Slash dir (''tmp'' @ r @ ''.tmp''),
                    fs(Slash dir (''tmp'' @ r @ ''.tmp'') \<mapsto> [])))"

text \<open>
  The body of the \<^verbatim>\<open>try\<close> of \<^verbatim>\<open>_save\<close>: write the text to the temporary file, then
  \<^verbatim>\<open>os.replace\<close> it over the target in one step.
\<close>

definition write_and_replace ::
  "env \<Rightarrow> string \<Rightarrow> path \<Rightarrow> path \<Rightarrow> (path \<Rightarrow> string option)
     \<Rightarrow> exn option \<times> (path \<Rightarrow> string option)" where
  "write_and_replace e text temp_path target fs =
     (case fault e of
        WriteFails k \<Rightarrow> (Some OSError, fs(temp_path \<mapsto> take k text))
      | ReplaceFails \<Rightarrow> (Some OSError, fs(temp_path \<mapsto> text))
      | _ \<Rightarrow> (let fs1 = fs(temp_path \<mapsto> text)
              in (None, fs1(target := fs1 temp_path, temp_path := None))))"

definition save :: "env \<Rightarrow> state \<Rightarrow> exn option \<times> state" where
  "save e s =
     (let data = JObj [(''lists'', JArr (map TodoList_to_dict (collection s)))]
      in case ensure_data_dir e of
           Some x \<Rightarrow> (Some x, s)
         | None \<Rightarrow>
             (case mkstemp e (data_dir s) (files s) of
                Inl x \<Rightarrow> (Some x, s)
              | Inr (temp_path, fs1) \<Rightarrow>
                  (case write_and_replace e (json_dump 0 data) temp_path (data_file s) fs1 of
                     (None, fs2) \<Rightarrow> (None, s\<lparr>files := fs2\<rparr>)
                   | (Some x, fs2) \<Rightarrow>
                       (Some x,
                        s\<lparr>files := (if fs2 temp_path \<noteq> None then fs2(temp_path := None)
                                     else fs2)\<rparr>))))"

text \<open>
  \<^verbatim>\<open>Storage.__init__\<close>, in the memory \<open>h\<close> (next free address \<open>n\<close>) and on the files
  \<open>fs\<close> of the process that constructs it.
\<close>

definition Storage_init ::
  "env \<Rightarrow> path option \<Rightarrow> (addr \<Rightarrow> TodoList) \<Rightarrow> addr \<Rightarrow> (path \<Rightarrow> string option)
     \<Rightarrow> exn + state" where
  "Storage_init e dir h n fs =
     (let d = (case dir of
                 None \<Rightarrow>
                   Slash (Path (case XDG_DATA_HOME e of None \<Rightarrow> home_share e | Some v \<Rightarrow> v))
                     ''simple-todo''
               | Some d \<Rightarrow> d);
          s = \<lparr>data_dir = d, data_file = Slash d ''data.json'', lists = [], objs = h,
               next_addr = n, files = fs\<rparr>
      in case ensure_data_dir e of
           Some x \<Rightarrow> Inl x
         | None \<Rightarrow> (case load e s of (None, s') \<Rightarrow> Inr s' | (Some x, s') \<Rightarrow> Inl x))"

section \<open>The operations of Storage\<close>

text \<open>
  An operation takes the environment of the call and the state and gives what the call
  does for its caller, \<open>Inl\<close> an exception raised or \<open>Inr\<close> the value returned, with the
  state it leaves. A reference to a list object is its address.
\<close>

definition get_lists :: "state \<Rightarrow> addr list" where
  "get_lists s = lists s"

definition get_list :: "string \<Rightarrow> state \<Rightarrow> addr option" where
  "get_list lid s = find (\<lambda>a. list_id (objs s a) = lid) (lists s)"

text \<open>The end of every changing branch: \<^verbatim>\<open>self._save()\<close>, then \<^verbatim>\<open>return r\<close>.\<close>

definition save_return :: "env \<Rightarrow> 'r \<Rightarrow> state \<Rightarrow> (exn + 'r) \<times> state" where
  "save_return e r s =
     (case save e s of (None, s') \<Rightarrow> (Inr r, s') | (Some x, s') \<Rightarrow> (Inl x, s'))"

definition create_list :: "env \<Rightarrow> string option \<Rightarrow> state \<Rightarrow> (exn + addr) \<times> state" where
  "create_list e nm s =
     (let nm1 = (case nm of
                   None \<Rightarrow> auto_name (collection s)
                 | Some n \<Rightarrow> if n = [] \<or> strip n = [] then auto_name (collection s) else n);
          a = next_addr s;
          new_list = \<lparr>list_id = uuid e, name = strip nm1, tasks = []\<rparr>;
          s1 = s\<lparr>objs := (objs s)(a := new_list), next_addr := Suc a,
                 lists := lists s @ [a]\<rparr>
      in save_return e a s1)"

definition delete_list :: "env \<Rightarrow> string \<Rightarrow> state \<Rightarrow> (exn + bool) \<times> state" where
  "delete_list e lid s =
     (let i = length (takeWhile (\<lambda>a. list_id (objs s a) \<noteq> lid) (lists s))
      in if i < length (lists s)
         then save_return e True (s\<lparr>lists := take i (lists s) @ drop (Suc i) (lists s)\<rparr>)
         else (Inr False, s))"

definition rename_list :: "env \<Rightarrow> string \<Rightarrow> string \<Rightarrow> state \<Rightarrow> (exn + bool) \<times> state" where
  "rename_list e lid new_name s =
     (case get_list lid s of
        Some a \<Rightarrow>
          if strip new_name \<noteq> []
          then save_return e True
                 (s\<lparr>objs := (objs s)(a := (objs s a)\<lparr>name := strip new_name\<rparr>)\<rparr>)
          else (Inr False, s)
      | None \<Rightarrow> (Inr False, s))"

definition add_task ::
  "env \<Rightarrow> string \<Rightarrow> string \<Rightarrow> state \<Rightarrow> (exn + Task option) \<times> state" where
  "add_task e lid ttl s =
     (case get_list lid s of
        Some a \<Rightarrow>
          if strip ttl \<noteq> []
          then (case TodoList_add_task (uuid e) (strip ttl) (objs s a) of
                  (task, l) \<Rightarrow> save_return e (Some task) (s\<lparr>objs := (objs s)(a := l)\<rparr>))
          else (Inr None, s)
      | None \<Rightarrow> (Inr None, s))"

definition update_task ::
  "env \<Rightarrow> string \<Rightarrow> string \<Rightarrow> string \<Rightarrow> state \<Rightarrow> (exn + bool) \<times> state" where
  "update_task e lid tid ttl s =
     (case get_list lid s of
        Some a \<Rightarrow>
          (case TodoList_get_task tid (objs s a) of
             Some i \<Rightarrow>
               if strip ttl \<noteq> []
               then save_return e True
                      (s\<lparr>objs := (objs s)(a := (objs s a)
                           \<lparr>tasks := (tasks (objs s a))
                              [i := (tasks (objs s a) ! i)\<lparr>title := strip ttl\<rparr>]\<rparr>)\<rparr>)
               else (Inr False, s)
           | None \<Rightarrow> (Inr False, s))
      | None \<Rightarrow> (Inr False, s))"

definition delete_task ::
  "env \<Rightarrow> string \<Rightarrow> string \<Rightarrow> state \<Rightarrow> (exn + bool) \<times> state" where
  "delete_task e lid tid s =
     (case get_list lid s of
        Some a \<Rightarrow>
          (case TodoList_remove_task tid (objs s a) of
             (removed, l) \<Rightarrow>
               if removed then save_return e True (s\<lparr>objs := (objs s)(a := l)\<rparr>)
               else (Inr False, s\<lparr>objs := (objs s)(a := l)\<rparr>))
      | None \<Rightarrow> (Inr False, s))"

definition toggle_task ::
  "env \<Rightarrow> string \<Rightarrow> string \<Rightarrow> state \<Rightarrow> (exn + bool) \<times> state" where
  "toggle_task e lid tid s =
     (case get_list lid s of
        Some a \<Rightarrow>
          (case TodoList_get_task tid (objs s a) of
             Some i \<Rightarrow>
               save_return e True
                 (s\<lparr>objs := (objs s)(a := (objs s a)
                      \<lparr>tasks := (tasks (objs s a))
                         [i := (tasks (objs s a) ! i)
                                 \<lparr>completed := \<not> completed (tasks (objs s a) ! i)\<rparr>]\<rparr>)\<rparr>)
           | None \<Rightarrow> (Inr False, s))
      | None \<Rightarrow> (Inr False, s))"

text \<open>The changing operations as one type of calls, with one type for what they return.\<close>

datatype call =
    CreateList "string option"
  | DeleteList string
  | RenameList string string
  | AddTask string string
  | UpdateTask string string string
  | DeleteTask string string
  | ToggleTask string string

datatype ret = RList addr | RBool bool | RTask "Task option"

fun exec :: "env \<Rightarrow> call \<Rightarrow> state \<Rightarrow> (exn + ret) \<times> state" where
  "exec e (CreateList nm) s = apfst (map_sum id RList) (create_list e nm s)"
| "exec e (DeleteList lid) s = apfst (map_sum id RBool) (delete_list e lid s)"
| "exec e (RenameList lid n) s = apfst (map_sum id RBool) (rename_list e lid n s)"
| "exec e (AddTask lid t) s = apfst (map_sum id RTask) (add_task e lid t s)"
| "exec e (UpdateTask lid tid t) s = apfst (map_sum id RBool) (update_task e lid tid t s)"
| "exec e (DeleteTask lid tid) s = apfst (map_sum id RBool) (delete_task e lid tid s)"
| "exec e (ToggleTask lid tid) s = apfst (map_sum id RBool) (toggle_task e lid tid s)"

text \<open>
  What holds in every state that \<^verbatim>\<open>Storage\<close> reaches: the data file is
  \<^verbatim>\<open>data.json\<close> in the data directory, the collection holds each list object once, and
  every object in it lies below the next free address.
\<close>

definition wf :: "state \<Rightarrow> bool" where
  "wf s =
     (data_file s = Slash (data_dir s) ''data.json'' \<and> distinct (lists s) \<and>
      list_all (\<lambda>a. a < next_addr s) (lists s))"

section \<open>Notions the properties are stated with\<close>

text \<open>
  A number is used when some list's name is \<^verbatim>\<open>"List "\<close> followed by a text that
  \<^verbatim>\<open>int\<close> reads as that number.
\<close>

definition suffix_used :: "TodoList list \<Rightarrow> int \<Rightarrow> bool" where
  "suffix_used ls n =
     (\<exists>l \<in> set ls. startswith (name l) ''List '' \<and> py_int (drop 5 (name l)) = Some n)"

text \<open>
  The operating system lets a save through: no fault in a step of \<^verbatim>\<open>_save\<close> and a
  temporary name that is free.
\<close>

definition io_ok :: "env \<Rightarrow> state \<Rightarrow> bool" where
  "io_ok e s =
     ((fault e = NoFault \<or> fault e = OpenFails) \<and>
      (\<exists>r \<in> set (tmp_names e). files s (Slash (data_dir s) (''tmp'' @ r @ ''.tmp'')) = None))"

text \<open>The text of the whole collection, as \<^verbatim>\<open>_save\<close> writes it.\<close>

definition document :: "state \<Rightarrow> string" where
  "document s = json_dump 0 (JObj [(''lists'', JArr (map TodoList_to_dict (collection s)))])"

text \<open>
  A state and an environment to try the operations on: two lists, \<^verbatim>\<open>List 1\<close> with one
  task and \<^verbatim>\<open>List 3\<close> with none, in the directory \<^verbatim>\<open>/d\<close> with no file yet; no fault,
  one temporary name, and \<^verbatim>\<open>u-9\<close> as the next identifier.
\<close>

definition e0 :: env where
  "e0 = \<lparr>XDG_DATA_HOME = None, home_share = ''/home/u/.local/share'',
         json_load = (\<lambda>_. Inl JSONDecodeError), fault = NoFault, tmp_names = [''abc123''],
         uuid = ''u-9''\<rparr>"

definition s0 :: state where
  "s0 = \<lparr>data_dir = Path ''/d'', data_file = Slash (Path ''/d'') ''data.json'',
         lists = [0, 1],
         objs = (\<lambda>a. if a = 0
                     then \<lparr>list_id = ''u-1'', name = ''List 1'',
                           tasks = [\<lparr>task_id = ''t-1'', title = ''Buy milk'',
                                     completed = False\<rparr>]\<rparr>
                     else \<lparr>list_id = ''u-2'', name = ''List 3'', tasks = []\<rparr>),
         next_addr = 2, files = Map.empty\<rparr>"

text \<open>
  A returned value tells of a change when it is a list, \<^verbatim>\<open>True\<close> or a task; \<^verbatim>\<open>False\<close>
  and \<^verbatim>\<open>None\<close> tell of none.
\<close>

fun changed :: "ret \<Rightarrow> bool" where
  "changed (RList a) = True"
| "changed (RBool b) = b"
| "changed (RTask t) = (t \<noteq> None)"

text \<open>The list id a call is addressed to, if it is addressed to one list.\<close>

fun target :: "call \<Rightarrow> string option" where
  "target (CreateList nm) = None"
| "target (DeleteList lid) = Some lid"
| "target (RenameList lid n) = Some lid"
| "target (AddTask lid t) = Some lid"
| "target (UpdateTask lid tid t) = Some lid"
| "target (DeleteTask lid tid) = Some lid"
| "target (ToggleTask lid tid) = Some lid"

text \<open>
  What a caller sees, in the state \<open>s\<close>, through a sequence of references it holds: the
  objects as they are now.
\<close>

definition view :: "state \<Rightarrow> addr list \<Rightarrow> TodoList list" where
  "view s snap = map (objs s) snap"

text \<open>
  Two data files to construct a \<^verbatim>\<open>Storage\<close> on. The first holds the text \<^verbatim>\<open>[]\<close>, which
  is valid JSON and parses to an empty array; the second holds the single byte 255, which
  is no UTF-8 text, so that reading it raises \<^verbatim>\<open>UnicodeDecodeError\<close> before any parsing.
  Each comes with an environment whose reader does so on that content.
\<close>

definition fs_array :: "path \<Rightarrow> string option" where
  "fs_array = [Slash (Path ''/d'') ''data.json'' \<mapsto> ''[]'']"

definition e_array :: env where
  "e_array =
     e0\<lparr>json_load := (\<lambda>text. if text = ''[]'' then Inr (JArr []) else Inl JSONDecodeError)\<rparr>"

definition fs_bytes :: "path \<Rightarrow> string option" where
  "fs_bytes = [Slash (Path ''/d'') ''data.json'' \<mapsto> [char_of (255 :: nat)]]"

definition e_bytes :: env where
  "e_bytes =
     e0\<lparr>json_load := (\<lambda>text. if text = [char_of (255 :: nat)] then Inl UnicodeDecodeError
                              else Inl JSONDecodeError)\<rparr>"

section \<open>Round trip of the nested-mapping form\<close>

lemma Task_round_trip: "Task_from_dict (Task_to_dict t) = Some t"
  by (simp add: Task_from_dict_def Task_to_dict_def)

lemma those_tasks_round_trip:
  "those (map (Task_from_dict \<circ> Task_to_dict) ts) = Some ts"
  by (induction ts) (simp_all add: Task_round_trip)

text \<open>
  Claim C8. Reading back the serialized form of any list gives the list itself, in every
  field and also when it has no task; and a mapping that carries an id and a name and
  whose tasks entry is missing or is the empty sequence is read as a list with no task.
\<close>

theorem from_dict_to_dict_round_trip:
  "TodoList_from_dict (TodoList_to_dict x) = Some x \<and>
   (map_of d ''id'' = Some (JStr i) \<and> map_of d ''name'' = Some (JStr n) \<and>
    (map_of d ''tasks'' = None \<or> map_of d ''tasks'' = Some (JArr []))
    \<longrightarrow> TodoList_from_dict (JObj d) = Some \<lparr>list_id = i, name = n, tasks = []\<rparr>)"
proof
  show "TodoList_from_dict (TodoList_to_dict x) = Some x"
    by (simp add: TodoList_from_dict_def TodoList_to_dict_def those_tasks_round_trip)
next
  show "map_of d ''id'' = Some (JStr i) \<and> map_of d ''name'' = Some (JStr n) \<and>
    (map_of d ''tasks'' = None \<or> map_of d ''tasks'' = Some (JArr []))
    \<longrightarrow> TodoList_from_dict (JObj d) = Some \<lparr>list_id = i, name = n, tasks = []\<rparr>"
    by (auto simp: TodoList_from_dict_def)
qed

theorem from_dict_to_dict_round_trip_witness:
  "TodoList_from_dict (TodoList_to_dict
      \<lparr>list_id = ''a1'', name = ''Home'',
       tasks = [\<lparr>task_id = ''t1'', title = ''Buy milk'', completed = True\<rparr>]\<rparr>)
    = Some \<lparr>list_id = ''a1'', name = ''Home'',
       tasks = [\<lparr>task_id = ''t1'', title = ''Buy milk'', completed = True\<rparr>]\<rparr> \<and>
   map_of [(''id'', JStr ''a1''), (''name'', JStr ''Home'')] ''tasks'' = None \<and>
   TodoList_from_dict (JObj [(''id'', JStr ''a1''), (''name'', JStr ''Home'')])
    = Some \<lparr>list_id = ''a1'', name = ''Home'', tasks = []\<rparr>"
  using from_dict_to_dict_round_trip
    [of "\<lparr>list_id = ''a1'', name = ''Home'',
         tasks = [\<lparr>task_id = ''t1'', title = ''Buy milk'', completed = True\<rparr>]\<rparr>"
        "[(''id'', JStr ''a1''), (''name'', JStr ''Home'')]" "''a1''" "''Home''"]
  by simp

section \<open>Facts about names, saving and trimming\<close>

lemma existing_nums_iff: "n \<in> set (existing_nums ls) \<longleftrightarrow> suffix_used ls n"
  by (induction ls) (auto simp: existing_nums_def suffix_used_def split: option.splits if_splits)

lemma existing_nums_names:
  "existing_nums ls =
     List.map_filter (\<lambda>n. if startswith n ''List '' then py_int (drop 5 n) else None)
       (map name ls)"
  by (induction ls) (auto simp: existing_nums_def split: option.splits)

lemma next_available_spec:
  "num \<le> next_available nums num \<and> next_available nums num \<notin> set nums \<and>
   (\<forall>j. num \<le> j \<and> j < next_available nums num \<longrightarrow> j \<in> set nums)"
proof (induction nums num rule: next_available.induct)
  case (1 nums num)
  show ?case
  proof (cases "num \<in> set nums")
    case True
    with 1 have ih: "num + 1 \<le> next_available nums (num + 1)"
      "next_available nums (num + 1) \<notin> set nums"
      "\<forall>j. num + 1 \<le> j \<and> j < next_available nums (num + 1) \<longrightarrow> j \<in> set nums"
      by auto
    have eq: "next_available nums num = next_available nums (num + 1)"
      using True by (subst next_available.simps) simp
    have "\<forall>j. num \<le> j \<and> j < next_available nums (num + 1) \<longrightarrow> j \<in> set nums"
    proof (intro allI impI)
      fix j assume "num \<le> j \<and> j < next_available nums (num + 1)"
      then show "j \<in> set nums"
        using ih(3) True by (cases "j = num") auto
    qed
    with ih eq show ?thesis by simp
  next
    case False
    then have "next_available nums num = num"
      by (subst next_available.simps) simp
    with False show ?thesis by auto
  qed
qed

lemma find_Some_ex: "\<exists>x\<in>set xs. P x \<Longrightarrow> \<exists>y. find P xs = Some y \<and> P y \<and> y \<in> set xs"
  by (induction xs) auto


lemma save_ok:
  assumes "io_ok e s" and "data_file s = Slash (data_dir s) ''data.json''"
  shows "save e s = (None, s\<lparr>files := (files s)(data_file s \<mapsto> document s)\<rparr>)"
proof -
  let ?P = "\<lambda>r. files s (Slash (data_dir s) (''tmp'' @ r @ ''.tmp'')) = None"
  from assms(1) have "\<exists>r\<in>set (tmp_names e). ?P r" by (simp add: io_ok_def)
  then obtain r where r: "find ?P (tmp_names e) = Some r" "?P r"
    using find_Some_ex [of "tmp_names e" ?P] by blast
  from assms(1) have f: "fault e = NoFault \<or> fault e = OpenFails" by (simp add: io_ok_def)
  have ne: "data_file s \<noteq> Slash (data_dir s) (''tmp'' @ r @ ''.tmp'')"
    using assms(2) by simp
  have "(files s)(Slash (data_dir s) (''tmp'' @ r @ ''.tmp'') \<mapsto> document s,
          data_file s \<mapsto> document s, Slash (data_dir s) (''tmp'' @ r @ ''.tmp'') := None)
        = (files s)(data_file s \<mapsto> document s)"
    using r(2) ne by (auto simp: fun_eq_iff)
  then show ?thesis
    using f r(1) ne
    by (auto simp: save_def ensure_data_dir_def mkstemp_def write_and_replace_def
        document_def Let_def)
qed

lemma find_Some_holds: "find P xs = Some y \<Longrightarrow> P y"
  by (induction xs) (auto split: if_splits)

lemma save_memory:
  "lists (snd (save e s)) = lists s" "objs (snd (save e s)) = objs s"
  "next_addr (snd (save e s)) = next_addr s" "data_dir (snd (save e s)) = data_dir s"
  "data_file (snd (save e s)) = data_file s"
  by (auto simp: save_def Let_def split: option.splits sum.splits prod.splits)

lemma save_failed:
  assumes "fst (save e s) = Some x"
  shows "snd (save e s) = s"
proof (cases "ensure_data_dir e")
  case (Some y)
  then show ?thesis by (simp add: save_def)
next
  case None
  show ?thesis
  proof (cases "mkstemp e (data_dir s) (files s)")
    case (Inl y)
    with None show ?thesis by (simp add: save_def)
  next
    case (Inr p)
    obtain t fs1 where p: "p = (t, fs1)" by (cases p)
    from Inr p have fresh: "files s t = None" and fs1: "fs1 = (files s)(t \<mapsto> [])"
      by (auto simp: mkstemp_def split: if_splits option.splits dest: find_Some_holds)
    have clean: "(files s)(t := None) = files s"
      using fresh by (auto simp: fun_eq_iff)
    from assms None Inr p fs1 show ?thesis
      by (cases "fault e") (auto simp: save_def write_and_replace_def Let_def clean)
  qed
qed

lemma save_return_memory:
  "lists (snd (save_return e r s)) = lists s" "objs (snd (save_return e r s)) = objs s"
  "next_addr (snd (save_return e r s)) = next_addr s"
  "data_dir (snd (save_return e r s)) = data_dir s"
  "data_file (snd (save_return e r s)) = data_file s"
  using save_memory [of e s]
  by (auto simp: save_return_def split: prod.splits option.splits)

lemma save_return_result:
  "fst (save_return e r s) = (case fst (save e s) of None \<Rightarrow> Inr r | Some x \<Rightarrow> Inl x)"
  by (auto simp: save_return_def split: prod.splits option.splits)

lemma save_return_files: "files (snd (save_return e r s)) = files (snd (save e s))"
  by (auto simp: save_return_def split: prod.splits option.splits)

lemma strip_id:
  assumes "s \<noteq> []" "\<not> isspace (hd s)" "\<not> isspace (last s)"
  shows "strip s = s"
proof -
  from assms(1,2) have "dropWhile isspace s = s" by (cases s) auto
  moreover from assms(1,3) have "dropWhile isspace (rev s) = rev s"
    by (cases "rev s") (auto simp: last_rev [symmetric] hd_rev)
  ultimately show ?thesis by (simp add: strip_def)
qed

lemma digits_of_last: "digits_of n \<noteq> [] \<and> last (digits_of n) = char_of (48 + n mod 10)"
proof -
  have eq: "digits_of n =
      (if n < 10 then [char_of (48 + n)] else digits_of (n div 10) @ [char_of (48 + n mod 10)])"
    by (rule digits_of.simps)
  show ?thesis by (cases "n < 10") (simp_all add: eq)
qed


lemma py_str_strip:
  assumes "0 \<le> k"
  shows "strip (''List '' @ py_str k) = ''List '' @ py_str k"
proof (rule strip_id)
  show "''List '' @ py_str k \<noteq> []" by simp
  show "\<not> isspace (hd (''List '' @ py_str k))" by (simp add: isspace_def)
  have m: "nat k mod 10 < 10" by simp
  have "last (''List '' @ py_str k) = char_of (48 + nat k mod 10)"
    using assms digits_of_last [of "nat k"] by (simp add: py_str_def)
  moreover have "\<not> isspace (char_of (48 + nat k mod 10))"
  proof -
    have "(48 + nat k mod 10) mod 256 = 48 + nat k mod 10" using m by simp
    then show ?thesis using m by (auto simp: isspace_def Let_def)
  qed
  ultimately show "\<not> isspace (last (''List '' @ py_str k))" by simp
qed

lemma blank_name_auto:
  assumes "nm = None \<or> (\<exists>n. nm = Some n \<and> strip n = [])"
  shows "(case nm of None \<Rightarrow> auto_name ls
          | Some n \<Rightarrow> if n = [] \<or> strip n = [] then auto_name ls else n) = auto_name ls"
  using assms by auto

lemma create_list_blank:
  assumes "nm = None \<or> (\<exists>n. nm = Some n \<and> strip n = [])"
  shows "create_list e nm s =
     save_return e (next_addr s)
       (s\<lparr>objs := (objs s)(next_addr s :=
               \<lparr>list_id = uuid e,
                name = ''List '' @ py_str (next_available (existing_nums (collection s)) 1),
                tasks = []\<rparr>),
          next_addr := Suc (next_addr s), lists := lists s @ [next_addr s]\<rparr>)"
proof -
  have pos: "0 \<le> next_available (existing_nums (collection s)) 1"
    using next_available_spec [of 1 "existing_nums (collection s)"] by simp
  show ?thesis
    unfolding create_list_def Let_def blank_name_auto [OF assms]
    using py_str_strip [OF pos] by (simp add: auto_name_def)
qed

lemma io_ok_memory:
  "files s' = files s \<Longrightarrow> data_dir s' = data_dir s \<Longrightarrow> io_ok e s' = io_ok e s"
  by (simp add: io_ok_def)

lemma save_return_ok:
  assumes "io_ok e s" "data_file s = Slash (data_dir s) ''data.json''"
  shows "save_return e r s = (Inr r, s\<lparr>files := (files s)(data_file s \<mapsto> document s)\<rparr>)"
  using save_ok [OF assms] by (simp add: save_return_def)

lemma save_return_Inr: "fst (save_return e r s) = Inr r' \<Longrightarrow> r' = r"
  by (auto simp: save_return_def split: prod.splits option.splits)

lemma next_available_examples:
  "next_available (List.map_filter
      (\<lambda>n. if startswith n ''List '' then py_int (drop 5 n) else None) []) 1 = 1"
  "next_available (List.map_filter
      (\<lambda>n. if startswith n ''List '' then py_int (drop 5 n) else None)
      [''List 1'', ''List 3'']) 1 = 2"
  "next_available (List.map_filter
      (\<lambda>n. if startswith n ''List '' then py_int (drop 5 n) else None)
      [''List 1'', ''List 2'']) 1 = 3"
  by code_simp+

text \<open>
  The number found is at most one more than the number of numbers collected, so at most
  one more than the number of lists.
\<close>

lemma next_available_bound_from:
  "next_available nums num \<le> num + int (length (filter (\<lambda>k. num \<le> k) nums))"
proof (induction nums num rule: next_available.induct)
  case (1 nums num)
  show ?case
  proof (cases "num \<in> set nums")
    case True
    have "filter (\<lambda>k. num + 1 \<le> k) nums
        = filter (\<lambda>k. num + 1 \<le> k) (filter (\<lambda>k. num \<le> k) nums)"
      by (simp add: conj_commute cong: filter_cong) (rule filter_cong, auto)
    moreover have "length (filter (\<lambda>k. num + 1 \<le> k) (filter (\<lambda>k. num \<le> k) nums))
        < length (filter (\<lambda>k. num \<le> k) nums)"
      by (rule length_filter_less [of num]) (use True in auto)
    ultimately have "length (filter (\<lambda>k. num + 1 \<le> k) nums)
        < length (filter (\<lambda>k. num \<le> k) nums)"
      by simp
    moreover have "next_available nums num = next_available nums (num + 1)"
      using True by (subst next_available.simps) simp
    ultimately show ?thesis using 1 [OF True] by simp
  next
    case False
    then have "next_available nums num = num"
      by (subst next_available.simps) simp
    then show ?thesis by simp
  qed
qed

lemma next_available_bound:
  "next_available (existing_nums ls) 1 \<le> 1 + int (length ls)"
proof -
  have "length (existing_nums ls) \<le> length ls"
    by (simp add: existing_nums_def List.map_filter_def)
  moreover have "length (filter (\<lambda>k. 1 \<le> k) (existing_nums ls)) \<le> length (existing_nums ls)"
    by (rule length_filter_le)
  ultimately show ?thesis
    using next_available_bound_from [of "existing_nums ls" 1] by linarith
qed

text \<open>
  A name beyond the limit on digits is not counted: \<^verbatim>\<open>int\<close> raises on a suffix of 4300
  zeros and a one, the loop passes over it, and the number 1 stays free. One digit fewer
  and the suffix reads as 1.
\<close>

lemma py_int_over_limit: "py_int (replicate 4300 CHR ''0'' @ ''1'') = None"
proof -
  let ?s = "replicate 4300 CHR ''0'' @ ''1''"
  have z: "\<not> int_space CHR ''0''" "\<not> int_space CHR ''1''" "is_digit CHR ''0''" "is_digit CHR ''1''"
    by (simp_all add: int_space_def is_digit_def)
  have r: "replicate 4300 CHR ''0'' = CHR ''0'' # replicate 4299 CHR ''0''"
    by (simp add: replicate_Suc [symmetric] del: replicate_Suc)
  have d1: "dropWhile int_space ?s = ?s"
    using z by (simp add: r)
  have "rev ?s = CHR ''1'' # replicate 4300 CHR ''0''" by simp
  then have d2: "dropWhile int_space (rev ?s) = rev ?s"
    using z by simp
  have body: "rev (dropWhile int_space (rev (dropWhile int_space ?s))) = ?s"
    by (simp only: d1 d2 rev_rev_ident)
  have n: "length (filter is_digit (CHR ''0'' # replicate 4299 CHR ''0'' @ ''1'')) = 4301"
    using z by simp
  have "exceeds_limit (CHR ''0'' # replicate 4299 CHR ''0'' @ ''1'')"
    unfolding exceeds_limit_def Let_def n by (simp add: int_max_str_digits_def)
  then have "unsigned_int (CHR ''0'' # replicate 4299 CHR ''0'' @ ''1'') = None"
    using z by (simp add: unsigned_int_def)
  then show ?thesis
    unfolding py_int_def body by (simp add: r)
qed

lemma digits_value_zeros: "digits_value 0 (replicate n CHR ''0'' @ ''1'') = Some 1"
proof (induction n)
  case 0
  show ?case by (simp add: is_digit_def digit_val_def)
next
  case (Suc n)
  obtain d cs where tl: "replicate n CHR ''0'' @ ''1'' = d # cs"
    by (cases "replicate n CHR ''0'' @ ''1''") auto
  have "digits_value 0 (CHR ''0'' # d # cs) = digits_value 0 (d # cs)"
    by (simp add: is_digit_def digit_val_def)
  with Suc tl show ?case by simp
qed

lemma py_int_at_limit: "py_int (replicate 4299 CHR ''0'' @ ''1'') = Some 1"
proof -
  let ?s = "replicate 4299 CHR ''0'' @ ''1''"
  have z: "\<not> int_space CHR ''0''" "\<not> int_space CHR ''1''" "is_digit CHR ''0''" "is_digit CHR ''1''"
    by (simp_all add: int_space_def is_digit_def)
  have r: "replicate 4299 CHR ''0'' = CHR ''0'' # replicate 4298 CHR ''0''"
    by (simp add: replicate_Suc [symmetric] del: replicate_Suc)
  have d1: "dropWhile int_space ?s = ?s"
    using z by (simp add: r)
  have "rev ?s = CHR ''1'' # replicate 4299 CHR ''0''" by simp
  then have d2: "dropWhile int_space (rev ?s) = rev ?s"
    using z by simp
  have body: "rev (dropWhile int_space (rev (dropWhile int_space ?s))) = ?s"
    by (simp only: d1 d2 rev_rev_ident)
  have n: "length (filter is_digit (CHR ''0'' # replicate 4298 CHR ''0'' @ ''1'')) = 4300"
    using z by simp
  have "\<not> exceeds_limit (CHR ''0'' # replicate 4298 CHR ''0'' @ ''1'')"
    unfolding exceeds_limit_def Let_def n by (simp add: int_max_str_digits_def)
  then have "unsigned_int (CHR ''0'' # replicate 4298 CHR ''0'' @ ''1'') = Some 1"
    using z digits_value_zeros [of 4298] by (simp add: unsigned_int_def digit_val_def)
  then show ?thesis
    unfolding py_int_def body by (simp add: r)
qed

lemma existing_nums_over_limit:
  assumes "map name ls = [''List '' @ replicate 4300 CHR ''0'' @ ''1'']"
  shows "existing_nums ls = []"
proof -
  have "drop 5 (''List '' @ replicate 4300 CHR ''0'' @ ''1'') = replicate 4300 CHR ''0'' @ ''1''"
    by simp
  then show ?thesis
    using assms py_int_over_limit
    by (simp add: existing_nums_names startswith_def del: replicate.simps)
qed

section \<open>Automatic names of new lists\<close>

text \<open>
  Claim C3. When \<^verbatim>\<open>create_list\<close> is called with no name or with a name of white space
  only, the new list is named \<^verbatim>\<open>List k\<close> where \<open>k\<close> is the smallest positive integer
  that no existing name of the form \<^verbatim>\<open>List <number>\<close> uses: \<open>k\<close> is positive and unused,
  and every positive integer below it is used. A name uses the number that \<^verbatim>\<open>int\<close>
  reads from what follows \<^verbatim>\<open>"List "\<close>, as the code collects them; a name on which
  \<^verbatim>\<open>int\<close> raises uses none, also when it raises for too many digits: a single list
  named \<^verbatim>\<open>List\<close>, 4300 zeros and a one leaves 1 free. With the names \<^verbatim>\<open>List 1\<close> and
  \<^verbatim>\<open>List 3\<close> it is 2, with no list it is 1, with \<^verbatim>\<open>List 1\<close> and \<^verbatim>\<open>List 2\<close> it is 3.
  The new list (with the identifier drawn and no task) is put at the end of the
  collection, and it is what the call returns, which it does whenever the save goes
  through.
\<close>

theorem create_list_auto_name:
  assumes blank: "nm = None \<or> (\<exists>n. nm = Some n \<and> strip n = [])"
    and k: "k = next_available (existing_nums (collection s)) 1"
    and s': "s' = snd (create_list e nm s)"
    and new: "new_list = \<lparr>list_id = uuid e, name = ''List '' @ py_str k, tasks = []\<rparr>"
  shows "0 < k \<and> \<not> suffix_used (collection s) k \<and>
    (\<forall>j. 0 < j \<and> j < k \<longrightarrow> suffix_used (collection s) j) \<and>
    lists s' = lists s @ [next_addr s] \<and>
    objs s' (next_addr s) = new_list \<and>
    (wf s \<longrightarrow> collection s' = collection s @ [new_list]) \<and>
    (\<forall>r. fst (create_list e nm s) = Inr r \<longrightarrow> r = next_addr s) \<and>
    (wf s \<and> io_ok e s \<longrightarrow> fst (create_list e nm s) = Inr (next_addr s)) \<and>
    (map name (collection s) = [] \<longrightarrow> k = 1) \<and>
    (map name (collection s) = [''List 1'', ''List 3''] \<longrightarrow> k = 2) \<and>
    (map name (collection s) = [''List 1'', ''List 2''] \<longrightarrow> k = 3) \<and>
    (map name (collection s) = [''List '' @ replicate 4300 CHR ''0'' @ ''1''] \<longrightarrow> k = 1) \<and>
    k \<le> 1 + int (length (collection s))"
proof -
  let ?s1 = "s\<lparr>objs := (objs s)(next_addr s := new_list),
          next_addr := Suc (next_addr s), lists := lists s @ [next_addr s]\<rparr>"
  have cl: "create_list e nm s = save_return e (next_addr s) ?s1"
    using create_list_blank [OF blank] by (simp add: k new)
  have spec: "1 \<le> k" "k \<notin> set (existing_nums (collection s))"
    "\<forall>j. 1 \<le> j \<and> j < k \<longrightarrow> j \<in> set (existing_nums (collection s))"
    using next_available_spec [of 1 "existing_nums (collection s)"] by (simp_all add: k)
  have c1: "0 < k" using spec(1) by simp
  have c2: "\<not> suffix_used (collection s) k"
    using spec(2) by (simp add: existing_nums_iff)
  have c3: "\<forall>j. 0 < j \<and> j < k \<longrightarrow> suffix_used (collection s) j"
    using spec(3) by (auto simp: existing_nums_iff [symmetric])
  have c4: "lists s' = lists s @ [next_addr s]"
    by (simp add: s' cl save_return_memory)
  have c5: "objs s' (next_addr s) = new_list"
    by (simp add: s' cl save_return_memory)
  have c6: "wf s \<longrightarrow> collection s' = collection s @ [new_list]"
  proof
    assume "wf s"
    then have "\<forall>a\<in>set (lists s). a \<noteq> next_addr s"
      by (auto simp: wf_def list_all_iff)
    then show "collection s' = collection s @ [new_list]"
      by (simp add: collection_def s' cl save_return_memory)
  qed
  have c7: "\<forall>r. fst (create_list e nm s) = Inr r \<longrightarrow> r = next_addr s"
    by (auto simp: cl dest: save_return_Inr)
  have c8: "wf s \<and> io_ok e s \<longrightarrow> fst (create_list e nm s) = Inr (next_addr s)"
  proof
    assume a: "wf s \<and> io_ok e s"
    then have "io_ok e ?s1" "data_file ?s1 = Slash (data_dir ?s1) ''data.json''"
      by (simp_all add: io_ok_def wf_def)
    from save_return_ok [OF this, where r = "next_addr s"] show "fst (create_list e nm s) = Inr (next_addr s)"
      by (simp add: cl)
  qed
  have c9: "map name (collection s) = [] \<longrightarrow> k = 1"
    using next_available_examples(1) by (auto simp: k existing_nums_names)
  have c10: "map name (collection s) = [''List 1'', ''List 3''] \<longrightarrow> k = 2"
    using next_available_examples(2) by (auto simp: k existing_nums_names)
  have c11: "map name (collection s) = [''List 1'', ''List 2''] \<longrightarrow> k = 3"
    using next_available_examples(3) by (auto simp: k existing_nums_names)
  have c12: "map name (collection s) = [''List '' @ replicate 4300 CHR ''0'' @ ''1'']
      \<longrightarrow> k = 1"
  proof
    assume "map name (collection s) = [''List '' @ replicate 4300 CHR ''0'' @ ''1'']"
    then have "existing_nums (collection s) = []"
      by (rule existing_nums_over_limit)
    then show "k = 1"
      by (simp add: k) (subst next_available.simps, simp)
  qed
  have c13: "k \<le> 1 + int (length (collection s))"
    unfolding k by (rule next_available_bound)
  from c1 c2 c3 c4 c5 c6 c7 c8 c9 c10 c11 c12 c13 show ?thesis by blast
qed

lemma k0: "next_available (existing_nums (collection s0)) 1 = 2"
proof -
  have "map name (collection s0) = [''List 1'', ''List 3'']"
    by (simp add: s0_def collection_def)
  then show ?thesis
    by (simp only: existing_nums_names next_available_examples)
qed

theorem create_list_auto_name_witness:
  "lists (snd (create_list e0 None s0)) = [0, 1, 2] \<and>
   objs (snd (create_list e0 None s0)) 2 = \<lparr>list_id = ''u-9'', name = ''List 2'', tasks = []\<rparr> \<and>
   fst (create_list e0 None s0) = Inr 2 \<and>
   suffix_used (collection s0) 1 \<and> \<not> suffix_used (collection s0) 2"
proof -
  have io: "wf s0 \<and> io_ok e0 s0"
    by (simp add: wf_def io_ok_def s0_def e0_def)
  have str: "py_str 2 = ''2''" by code_simp
  show ?thesis
    using create_list_auto_name [of None 2 s0 "snd (create_list e0 None s0)" e0
        "\<lparr>list_id = ''u-9'', name = ''List 2'', tasks = []\<rparr>"] k0 io str
    by (simp add: s0_def e0_def)
qed

section \<open>Every operation, its save and its files\<close>

lemma apfst_save_return:
  "apfst (map_sum id f) (save_return e r s) = save_return e (f r) s"
  by (auto simp: save_return_def split: prod.splits option.splits)

lemma takeWhile_find_None:
  "find P xs = None \<Longrightarrow> length (takeWhile (\<lambda>a. \<not> P a) xs) = length xs"
  by (induction xs) (auto split: if_splits)

lemma takeWhile_find_Some:
  "find P xs = Some a \<Longrightarrow>
     length (takeWhile (\<lambda>a. \<not> P a) xs) < length xs \<and>
     xs ! length (takeWhile (\<lambda>a. \<not> P a) xs) = a \<and>
     take (length (takeWhile (\<lambda>a. \<not> P a) xs)) xs
       @ drop (Suc (length (takeWhile (\<lambda>a. \<not> P a) xs))) xs = remove1 a xs"
  by (induction xs) (auto split: if_splits dest: find_Some_holds)

lemma save_succeeded:
  assumes "fst (save e s) = None" "data_file s = Slash (data_dir s) ''data.json''"
  shows "files (snd (save e s)) = (files s)(data_file s \<mapsto> document s)"
proof (cases "mkstemp e (data_dir s) (files s)")
  case (Inl y)
  with assms show ?thesis
    by (simp add: save_def split: option.splits)
next
  case (Inr p)
  obtain t fs1 where p: "p = (t, fs1)" by (cases p)
  from Inr p obtain r where t: "t = Slash (data_dir s) (''tmp'' @ r @ ''.tmp'')"
    and fresh: "files s t = None" and fs1: "fs1 = (files s)(t \<mapsto> [])"
    by (auto simp: mkstemp_def split: if_splits option.splits dest: find_Some_holds)
  have ne: "data_file s \<noteq> t" using assms(2) t by simp
  have "(files s)(t \<mapsto> document s, data_file s \<mapsto> document s, t := None)
        = (files s)(data_file s \<mapsto> document s)"
    using fresh ne by (auto simp: fun_eq_iff)
  with assms(1) Inr p fs1 show ?thesis
    by (cases "fault e")
       (auto simp: save_def write_and_replace_def Let_def document_def split: option.splits)
qed

lemma snd_save_return: "snd (save_return e r s) = snd (save e s)"
  by (auto simp: save_return_def split: prod.splits option.splits)

lemma fst_save_return_Inr:
  "(fst (save_return e r s) = Inr v) = (fst (save e s) = None \<and> v = r)"
  by (auto simp: save_return_def split: prod.splits option.splits)

lemma fst_save_return_Inl:
  "(fst (save_return e r s) = Inl x) = (fst (save e s) = Some x)"
  by (auto simp: save_return_def split: prod.splits option.splits)

lemma document_memory: "lists s' = lists s \<Longrightarrow> objs s' = objs s \<Longrightarrow> document s' = document s"
  by (simp add: document_def collection_def)

lemma exec_success_files:
  assumes "fst (exec e c s) = Inr v" "changed v" "wf s"
  shows "files (snd (exec e c s)) = (files s)(data_file s \<mapsto> document (snd (exec e c s)))"
proof -
  have df: "data_file s = Slash (data_dir s) ''data.json''" using assms(3) by (simp add: wf_def)
  have key: "\<And>s1. fst (save e s1) = None \<Longrightarrow> files s1 = files s \<Longrightarrow>
      data_dir s1 = data_dir s \<Longrightarrow> data_file s1 = data_file s \<Longrightarrow>
      files (snd (save e s1)) = (files s)(data_file s \<mapsto> document (snd (save e s1)))"
  proof -
    fix s1
    assume a: "fst (save e s1) = None" "files s1 = files s"
      "data_dir s1 = data_dir s" "data_file s1 = data_file s"
    have "document (snd (save e s1)) = document s1"
      by (rule document_memory) (simp_all add: save_memory)
    with save_succeeded [OF a(1)] a df show "files (snd (save e s1))
        = (files s)(data_file s \<mapsto> document (snd (save e s1)))"
      by simp
  qed
  note rw = Let_def snd_save_return save_return_result
  show ?thesis
  proof (cases c)
    case (CreateList nm)
    with assms(1) show ?thesis
      by (auto simp: create_list_def rw split: option.splits intro!: key)
  next
    case (DeleteList lid)
    with assms(1,2) show ?thesis
      by (auto simp: delete_list_def rw split: if_splits option.splits intro!: key)
  next
    case (RenameList lid n)
    with assms(1,2) show ?thesis
      by (auto simp: rename_list_def rw split: if_splits option.splits intro!: key)
  next
    case (AddTask lid t)
    with assms(1,2) show ?thesis
      by (auto simp: add_task_def rw TodoList_add_task_def
          split: if_splits option.splits intro!: key)
  next
    case (UpdateTask lid tid t)
    with assms(1,2) show ?thesis
      by (auto simp: update_task_def rw split: if_splits option.splits intro!: key)
  next
    case (DeleteTask lid tid)
    with assms(1,2) show ?thesis
      by (auto simp: delete_task_def rw split: if_splits option.splits prod.splits intro!: key)
  next
    case (ToggleTask lid tid)
    with assms(1,2) show ?thesis
      by (auto simp: toggle_task_def rw split: if_splits option.splits intro!: key)
  qed
qed

lemma save_fault_raises:
  assumes "fault e = WriteFails k \<or> fault e = ReplaceFails"
  shows "fst (save e s) = Some OSError"
  using assms
  by (auto simp: save_def ensure_data_dir_def mkstemp_def write_and_replace_def Let_def
      split: option.splits sum.splits prod.splits)

lemma save_raises_OSError: "fst (save e s) = Some x \<Longrightarrow> x = OSError"
  by (auto simp: save_def ensure_data_dir_def mkstemp_def write_and_replace_def Let_def
      split: option.splits sum.splits prod.splits if_splits fault.splits)

lemma save_temp_file:
  assumes "fst (save e s) = None"
  shows "\<exists>r \<in> set (tmp_names e).
     mkstemp e (data_dir s) (files s)
       = Inr (Slash (data_dir s) (''tmp'' @ r @ ''.tmp''),
              (files s)(Slash (data_dir s) (''tmp'' @ r @ ''.tmp'') \<mapsto> [])) \<and>
     files s (Slash (data_dir s) (''tmp'' @ r @ ''.tmp'')) = None"
  using assms
  by (auto simp: save_def mkstemp_def Let_def find_Some_iff
      split: option.splits sum.splits prod.splits if_splits dest: find_Some_holds)

lemma exec_failed:
  assumes "fst (exec e c s) = Inl x"
  shows "files (snd (exec e c s)) = files s \<and> x = OSError"
proof -
  have key: "\<And>s1. fst (save e s1) = Some x \<Longrightarrow> files s1 = files s \<Longrightarrow>
      files (snd (save e s1)) = files s \<and> x = OSError"
    using save_failed save_raises_OSError by metis
  note rw = Let_def snd_save_return save_return_result
  show ?thesis
  proof (cases c)
    case (CreateList nm)
    with assms show ?thesis
      by (auto simp: create_list_def rw split: option.splits dest!: key)
  next
    case (DeleteList lid)
    with assms show ?thesis
      by (auto simp: delete_list_def rw split: if_splits option.splits dest!: key)
  next
    case (RenameList lid n)
    with assms show ?thesis
      by (auto simp: rename_list_def rw split: if_splits option.splits dest!: key)
  next
    case (AddTask lid t)
    with assms show ?thesis
      by (auto simp: add_task_def rw TodoList_add_task_def
          split: if_splits option.splits dest!: key)
  next
    case (UpdateTask lid tid t)
    with assms show ?thesis
      by (auto simp: update_task_def rw split: if_splits option.splits dest!: key)
  next
    case (DeleteTask lid tid)
    with assms show ?thesis
      by (auto simp: delete_task_def rw split: if_splits option.splits prod.splits dest!: key)
  next
    case (ToggleTask lid tid)
    with assms show ?thesis
      by (auto simp: toggle_task_def rw split: if_splits option.splits dest!: key)
  qed
qed

lemma exec_fault:
  assumes u: "uuid e' = uuid e" and ok: "fst (exec e c s) = Inr v" "changed v"
    and f: "fault e' = WriteFails k \<or> fault e' = ReplaceFails"
  shows "fst (exec e' c s) = Inl OSError \<and>
         lists (snd (exec e' c s)) = lists (snd (exec e c s)) \<and>
         objs (snd (exec e' c s)) = objs (snd (exec e c s)) \<and>
         next_addr (snd (exec e' c s)) = next_addr (snd (exec e c s))"
proof -
  note rw = Let_def snd_save_return save_return_result save_memory
    save_fault_raises [OF f]
  show ?thesis
  proof (cases c)
    case (CreateList nm)
    with u ok show ?thesis
      by (auto simp: create_list_def rw split: option.splits)
  next
    case (DeleteList lid)
    with u ok show ?thesis
      by (auto simp: delete_list_def rw split: if_splits option.splits)
  next
    case (RenameList lid n)
    with u ok show ?thesis
      by (auto simp: rename_list_def rw split: if_splits option.splits)
  next
    case (AddTask lid t)
    with u ok show ?thesis
      by (auto simp: add_task_def rw TodoList_add_task_def split: if_splits option.splits)
  next
    case (UpdateTask lid tid t)
    with u ok show ?thesis
      by (auto simp: update_task_def rw split: if_splits option.splits)
  next
    case (DeleteTask lid tid)
    with u ok show ?thesis
      by (auto simp: delete_task_def rw split: if_splits option.splits prod.splits)
  next
    case (ToggleTask lid tid)
    with u ok show ?thesis
      by (auto simp: toggle_task_def rw split: if_splits option.splits)
  qed
qed

lemma exec_success_temp:
  assumes "fst (exec e c s) = Inr v" "changed v"
  shows "\<exists>r \<in> set (tmp_names e). files s (Slash (data_dir s) (''tmp'' @ r @ ''.tmp'')) = None"
proof -
  note rw = Let_def snd_save_return save_return_result
  have "\<exists>s1. fst (save e s1) = None \<and> files s1 = files s \<and> data_dir s1 = data_dir s"
  proof (cases c)
    case (CreateList nm)
    with assms show ?thesis
      by (auto simp: create_list_def rw split: option.splits intro!: exI)
  next
    case (DeleteList lid)
    with assms show ?thesis
      by (auto simp: delete_list_def rw split: if_splits option.splits intro!: exI)
  next
    case (RenameList lid n)
    with assms show ?thesis
      by (auto simp: rename_list_def rw split: if_splits option.splits intro!: exI)
  next
    case (AddTask lid t)
    with assms show ?thesis
      by (auto simp: add_task_def rw TodoList_add_task_def
          split: if_splits option.splits intro!: exI)
  next
    case (UpdateTask lid tid t)
    with assms show ?thesis
      by (auto simp: update_task_def rw split: if_splits option.splits intro!: exI)
  next
    case (DeleteTask lid tid)
    with assms show ?thesis
      by (auto simp: delete_task_def rw split: if_splits option.splits prod.splits intro!: exI)
  next
    case (ToggleTask lid tid)
    with assms show ?thesis
      by (auto simp: toggle_task_def rw split: if_splits option.splits intro!: exI)
  qed
  then obtain s1 where a: "fst (save e s1) = None" "files s1 = files s" "data_dir s1 = data_dir s"
    by blast
  from save_temp_file [OF a(1)] a(2,3) show ?thesis by auto
qed

section \<open>The invariant of the states reached\<close>

text \<open>
  A \<^verbatim>\<open>Storage\<close> that has been constructed satisfies \<open>wf\<close>, and every operation keeps
  it, whether it returns or raises.
\<close>

lemma load_wf:
  assumes "load e s = (None, s')" "data_file s = Slash (data_dir s) ''data.json''"
  shows "wf s'"
  using assms
  by (auto simp: load_def alloc_all_def wf_def list_all_iff Let_def
      split: option.splits sum.splits if_splits)

lemma init_wf:
  assumes "Storage_init e dir h n fs = Inr s"
  shows "wf s"
proof -
  from assms obtain s1 where "load e s1 = (None, s)" "data_file s1 = Slash (data_dir s1) ''data.json''"
    by (auto simp: Storage_init_def Let_def split: option.splits prod.splits)
  then show ?thesis by (rule load_wf)
qed

lemma exec_wf:
  assumes "wf s"
  shows "wf (snd (exec e c s))"
proof -
  have rm: "\<And>i. distinct (take i (lists s) @ drop (Suc i) (lists s)) \<and>
      set (take i (lists s) @ drop (Suc i) (lists s)) \<subseteq> set (lists s)"
  proof -
    fix i
    have "distinct (take i (lists s) @ drop (Suc i) (lists s))"
      using assms distinct_take [of "lists s" i] distinct_drop [of "lists s" "Suc i"]
        set_take_disj_set_drop_if_distinct [of "lists s" i "Suc i"]
      by (simp add: wf_def)
    moreover have "set (take i (lists s) @ drop (Suc i) (lists s)) \<subseteq> set (lists s)"
      using set_take_subset [of i "lists s"] set_drop_subset [of "Suc i" "lists s"] by auto
    ultimately show "distinct (take i (lists s) @ drop (Suc i) (lists s)) \<and>
      set (take i (lists s) @ drop (Suc i) (lists s)) \<subseteq> set (lists s)" ..
  qed
  note rw = Let_def snd_save_return wf_def save_memory list_all_iff
  show ?thesis
  proof (cases c)
    case (CreateList nm)
    with assms show ?thesis
      by (auto simp: create_list_def rw)
  next
    case (DeleteList lid)
    with assms rm show ?thesis
      by (auto simp: delete_list_def rw dest: in_set_takeD in_set_dropD)
  next
    case (RenameList lid n)
    with assms show ?thesis
      by (auto simp: rename_list_def rw split: option.splits)
  next
    case (AddTask lid t)
    with assms show ?thesis
      by (auto simp: add_task_def TodoList_add_task_def rw split: option.splits)
  next
    case (UpdateTask lid tid t)
    with assms show ?thesis
      by (auto simp: update_task_def rw split: option.splits)
  next
    case (DeleteTask lid tid)
    with assms show ?thesis
      by (auto simp: delete_task_def rw split: option.splits prod.splits)
  next
    case (ToggleTask lid tid)
    with assms show ?thesis
      by (auto simp: toggle_task_def rw split: option.splits)
  qed
qed

section \<open>Saving after every change\<close>

text \<open>
  Claim C1. Take any changing operation that returns with a change (a list, \<^verbatim>\<open>True\<close> or a
  task). Then afterwards the data file holds the text of the whole collection as it is in
  memory, and every other file is as before: the temporary file, created under a name
  that was free in the data directory, has been renamed over the data file and none is
  left. And had the writing or the renaming failed in that same call, the call would
  raise the failure (\<^verbatim>\<open>OSError\<close>), leave every file as it was, the data file with its
  old content and no temporary file, and keep in memory the change it had made.
\<close>

theorem save_after_every_change:
  assumes "wf s" and "fst (exec e c s) = Inr v" and "changed v"
  shows "files (snd (exec e c s)) = (files s)(data_file s \<mapsto> document (snd (exec e c s))) \<and>
    (\<exists>r \<in> set (tmp_names e). files s (Slash (data_dir s) (''tmp'' @ r @ ''.tmp'')) = None) \<and>
    (uuid e' = uuid e \<and> (fault e' = WriteFails k \<or> fault e' = ReplaceFails) \<longrightarrow>
       fst (exec e' c s) = Inl OSError \<and>
       files (snd (exec e' c s)) = files s \<and>
       lists (snd (exec e' c s)) = lists (snd (exec e c s)) \<and>
       objs (snd (exec e' c s)) = objs (snd (exec e c s)))"
proof (intro conjI impI)
  show "files (snd (exec e c s)) = (files s)(data_file s \<mapsto> document (snd (exec e c s)))"
    by (rule exec_success_files [OF assms(2,3,1)])
  show "\<exists>r \<in> set (tmp_names e). files s (Slash (data_dir s) (''tmp'' @ r @ ''.tmp'')) = None"
    using assms(2,3) by (rule exec_success_temp)
next
  assume a: "uuid e' = uuid e \<and> (fault e' = WriteFails k \<or> fault e' = ReplaceFails)"
  then have f: "fst (exec e' c s) = Inl OSError \<and>
         lists (snd (exec e' c s)) = lists (snd (exec e c s)) \<and>
         objs (snd (exec e' c s)) = objs (snd (exec e c s)) \<and>
         next_addr (snd (exec e' c s)) = next_addr (snd (exec e c s))"
    using exec_fault [of e' e c s v k] assms(2,3) by blast
  from f show "fst (exec e' c s) = Inl OSError" by simp
  from f exec_failed [of e' c s OSError] show "files (snd (exec e' c s)) = files s" by simp
  from f show "lists (snd (exec e' c s)) = lists (snd (exec e c s))" by simp
  from f show "objs (snd (exec e' c s)) = objs (snd (exec e c s))" by simp
qed

lemma s0_wf: "wf s0"
  by (simp add: wf_def s0_def)

lemma e0_io_ok: "io_ok e0 s0"
  by (simp add: io_ok_def e0_def s0_def)

lemma strip_Home: "strip ''Home'' = ''Home''"
  by (simp add: strip_def isspace_def)

lemma rename0:
  "exec e0 (RenameList ''u-1'' ''Home'') s0 =
     (Inr (RBool True),
      s0\<lparr>objs := (objs s0)(0 := (objs s0 0)\<lparr>name := ''Home''\<rparr>),
         files := (files s0)(data_file s0 \<mapsto>
            document (s0\<lparr>objs := (objs s0)(0 := (objs s0 0)\<lparr>name := ''Home''\<rparr>)\<rparr>))\<rparr>)"
proof -
  have g: "get_list ''u-1'' s0 = Some 0" by (simp add: get_list_def s0_def)
  let ?s1 = "s0\<lparr>objs := (objs s0)(0 := (objs s0 0)\<lparr>name := ''Home''\<rparr>)\<rparr>"
  have "io_ok e0 ?s1" "data_file ?s1 = Slash (data_dir ?s1) ''data.json''"
    using e0_io_ok s0_wf by (simp_all add: io_ok_def wf_def)
  from save_return_ok [OF this, where r = True] show ?thesis
    by (simp add: rename_list_def g strip_Home)
qed

theorem save_after_every_change_witness:
  "files (snd (exec e0 (RenameList ''u-1'' ''Home'') s0)) (data_file s0)
     = Some (document (snd (exec e0 (RenameList ''u-1'' ''Home'') s0))) \<and>
   files (snd (exec e0 (RenameList ''u-1'' ''Home'') s0)) (Slash (Path ''/d'') ''tmpabc123.tmp'')
     = None \<and>
   fst (exec (e0\<lparr>fault := WriteFails 3\<rparr>) (RenameList ''u-1'' ''Home'') s0) = Inl OSError \<and>
   files (snd (exec (e0\<lparr>fault := WriteFails 3\<rparr>) (RenameList ''u-1'' ''Home'') s0)) = files s0 \<and>
   name (objs (snd (exec (e0\<lparr>fault := WriteFails 3\<rparr>) (RenameList ''u-1'' ''Home'') s0)) 0)
     = ''Home'' \<and>
   name (objs s0 0) = ''List 1''"
proof -
  let ?c = "RenameList ''u-1'' ''Home''"
  let ?e = "e0\<lparr>fault := WriteFails 3\<rparr>"
  have r: "fst (exec e0 ?c s0) = Inr (RBool True)"
    by (simp only: rename0 fst_conv)
  have ch: "changed (RBool True)" by simp
  have u: "uuid ?e = uuid e0 \<and> (fault ?e = WriteFails 3 \<or> fault ?e = ReplaceFails)"
    by simp
  from save_after_every_change [OF s0_wf r ch, where e' = ?e and k = 3] u
  have a: "files (snd (exec e0 ?c s0))
        = (files s0)(data_file s0 \<mapsto> document (snd (exec e0 ?c s0)))"
    and b: "fst (exec ?e ?c s0) = Inl OSError"
    and c: "files (snd (exec ?e ?c s0)) = files s0"
    and d: "objs (snd (exec ?e ?c s0)) = objs (snd (exec e0 ?c s0))"
    by blast+
  have "files (snd (exec e0 ?c s0)) (data_file s0) = Some (document (snd (exec e0 ?c s0)))"
    by (subst a) simp
  moreover have "files (snd (exec e0 ?c s0)) (Slash (Path ''/d'') ''tmpabc123.tmp'') = None"
    by (subst a) (simp add: s0_def)
  moreover have "name (objs (snd (exec ?e ?c s0)) 0) = ''Home''"
    by (simp only: d rename0 snd_conv) simp
  moreover have "name (objs s0 0) = ''List 1''" by (simp add: s0_def)
  ultimately show ?thesis using b c by blast
qed

lemma get_list_None_index:
  "get_list lid s = None \<Longrightarrow>
     length (takeWhile (\<lambda>a. list_id (objs s a) \<noteq> lid) (lists s)) = length (lists s)"
  using takeWhile_find_None [of "\<lambda>a. list_id (objs s a) = lid" "lists s"]
  by (simp add: get_list_def)

lemma get_task_None_remove:
  "TodoList_get_task tid l = None \<Longrightarrow> TodoList_remove_task tid l = (False, l)"
  by (simp add: TodoList_get_task_def TodoList_remove_task_def Let_def split: if_splits)

lemma same_object: "s\<lparr>objs := (objs s)(a := objs s a)\<rparr> = s"
  by simp

section \<open>Absent ids and blank texts\<close>

text \<open>
  Claim C5, as amended. Every operation other than \<^verbatim>\<open>create_list\<close> that is called with
  a list id or a task id that is not there, or with a name or title that is empty once
  trimmed, raises nothing, returns \<^verbatim>\<open>False\<close> or \<^verbatim>\<open>None\<close>, and leaves the whole state as
  it was: the collection in memory is unchanged and no file is written.
\<close>

theorem absent_or_blank_is_noop:
  "(get_list lid s = None \<longrightarrow>
      delete_list e lid s = (Inr False, s) \<and> rename_list e lid n s = (Inr False, s) \<and>
      add_task e lid t s = (Inr None, s) \<and> update_task e lid tid t s = (Inr False, s) \<and>
      delete_task e lid tid s = (Inr False, s) \<and> toggle_task e lid tid s = (Inr False, s)) \<and>
   (get_list lid s = Some a \<and> TodoList_get_task tid (objs s a) = None \<longrightarrow>
      update_task e lid tid t s = (Inr False, s) \<and> delete_task e lid tid s = (Inr False, s) \<and>
      toggle_task e lid tid s = (Inr False, s)) \<and>
   (strip n = [] \<longrightarrow> rename_list e lid n s = (Inr False, s)) \<and>
   (strip t = [] \<longrightarrow>
      add_task e lid t s = (Inr None, s) \<and> update_task e lid tid t s = (Inr False, s))"
proof (intro conjI impI)
  assume a: "get_list lid s = None"
  show "delete_list e lid s = (Inr False, s)"
    using get_list_None_index [OF a] by (simp add: delete_list_def)
  show "rename_list e lid n s = (Inr False, s)" using a by (simp add: rename_list_def)
  show "add_task e lid t s = (Inr None, s)" using a by (simp add: add_task_def)
  show "update_task e lid tid t s = (Inr False, s)" using a by (simp add: update_task_def)
  show "delete_task e lid tid s = (Inr False, s)" using a by (simp add: delete_task_def)
  show "toggle_task e lid tid s = (Inr False, s)" using a by (simp add: toggle_task_def)
next
  assume a: "get_list lid s = Some a \<and> TodoList_get_task tid (objs s a) = None"
  show "update_task e lid tid t s = (Inr False, s)" using a by (simp add: update_task_def)
  show "delete_task e lid tid s = (Inr False, s)"
    using a by (simp add: delete_task_def get_task_None_remove)
  show "toggle_task e lid tid s = (Inr False, s)" using a by (simp add: toggle_task_def)
next
  assume "strip n = []"
  then show "rename_list e lid n s = (Inr False, s)"
    by (simp add: rename_list_def split: option.splits)
next
  assume a: "strip t = []"
  show "add_task e lid t s = (Inr None, s)"
    using a by (simp add: add_task_def split: option.splits)
  show "update_task e lid tid t s = (Inr False, s)"
    using a by (simp add: update_task_def split: option.splits)
qed

lemma strip_blank: "strip ''   '' = []"
  by (simp add: strip_def isspace_def)

lemma get_list0_absent: "get_list ''nope'' s0 = None"
  by (simp add: get_list_def s0_def)

lemma get_list0_first: "get_list ''u-1'' s0 = Some 0"
  by (simp add: get_list_def s0_def)

lemma get_task0_absent: "TodoList_get_task ''nope'' (objs s0 0) = None"
  by (simp add: TodoList_get_task_def s0_def)

theorem absent_or_blank_is_noop_witness:
  "delete_list e0 ''nope'' s0 = (Inr False, s0) \<and>
   add_task e0 ''nope'' ''Buy milk'' s0 = (Inr None, s0) \<and>
   toggle_task e0 ''u-1'' ''nope'' s0 = (Inr False, s0) \<and>
   delete_task e0 ''u-1'' ''nope'' s0 = (Inr False, s0) \<and>
   rename_list e0 ''u-1'' ''   '' s0 = (Inr False, s0) \<and>
   update_task e0 ''u-1'' ''t-1'' ''   '' s0 = (Inr False, s0)"
  using absent_or_blank_is_noop [of "''nope''" s0 e0 "''   ''" "''Buy milk''" "''nope''" 0]
    absent_or_blank_is_noop [of "''u-1''" s0 e0 "''   ''" "''   ''" "''nope''" 0]
    absent_or_blank_is_noop [of "''u-1''" s0 e0 "''   ''" "''   ''" "''t-1''" 0]
    get_list0_absent get_list0_first get_task0_absent strip_blank
  by simp

text \<open>
  \<^verbatim>\<open>create_list\<close> is the exception: called with a name of three spaces, it appends a
  list named \<^verbatim>\<open>List 2\<close>, returns it and writes the data file.
\<close>

theorem blank_name_creates_list:
  "strip ''   '' = [] \<and>
   fst (create_list e0 (Some ''   '') s0) = Inr 2 \<and>
   lists s0 = [0, 1] \<and>
   lists (snd (create_list e0 (Some ''   '') s0)) = [0, 1, 2] \<and>
   name (objs (snd (create_list e0 (Some ''   '') s0)) 2) = ''List 2'' \<and>
   files s0 (data_file s0) = None \<and>
   files (snd (create_list e0 (Some ''   '') s0)) (data_file s0) \<noteq> None"
proof -
  let ?new = "\<lparr>list_id = ''u-9'', name = ''List 2'', tasks = []\<rparr>"
  let ?s1 = "s0\<lparr>objs := (objs s0)(2 := ?new), next_addr := Suc 2, lists := [0, 1] @ [2]\<rparr>"
  have str: "py_str 2 = ''2''" by code_simp
  have cl: "create_list e0 (Some ''   '') s0 = save_return e0 2 ?s1"
    using create_list_blank [of "Some ''   ''" e0 s0] strip_blank k0 str
    by (simp add: e0_def) (simp add: s0_def)
  have "io_ok e0 ?s1" "data_file ?s1 = Slash (data_dir ?s1) ''data.json''"
    using e0_io_ok s0_wf by (simp_all add: io_ok_def wf_def)
  from save_return_ok [OF this, where r = 2] have
    "create_list e0 (Some ''   '') s0
       = (Inr 2, ?s1\<lparr>files := (files ?s1)(data_file ?s1 \<mapsto> document ?s1)\<rparr>)"
    by (simp only: cl)
  then show ?thesis
    using strip_blank by (simp add: s0_def)
qed

section \<open>Adding a task\<close>

lemma strip_buy_milk: "strip ''  Buy milk  '' = ''Buy milk''"
  by (simp add: strip_def isspace_def)

text \<open>
  Claim C6. \<^verbatim>\<open>Storage.add_task\<close> returns \<^verbatim>\<open>None\<close> and changes nothing when the list is
  missing or the title is empty once trimmed. Otherwise it appends to the end of that
  list's tasks a new task with the trimmed title (so \<^verbatim>\<open>"  Buy milk  "\<close> is stored as
  \<^verbatim>\<open>"Buy milk"\<close>), not completed, under the identifier just drawn; the task is what the
  call returns whenever it returns, and when the save goes through it does return, with
  the data file holding the new collection.
\<close>

theorem add_task_appends_trimmed:
  assumes task: "task = \<lparr>task_id = uuid e, title = strip ttl, completed = False\<rparr>"
    and s': "s' = snd (add_task e lid ttl s)"
  shows "(get_list lid s = None \<or> strip ttl = [] \<longrightarrow> add_task e lid ttl s = (Inr None, s)) \<and>
    (get_list lid s = Some a \<and> strip ttl \<noteq> [] \<longrightarrow>
       objs s' a = (objs s a)\<lparr>tasks := tasks (objs s a) @ [task]\<rparr> \<and>
       (\<forall>r. fst (add_task e lid ttl s) = Inr r \<longrightarrow> r = Some task) \<and>
       (wf s \<and> io_ok e s \<longrightarrow>
          fst (add_task e lid ttl s) = Inr (Some task) \<and>
          files s' = (files s)(data_file s \<mapsto> document s'))) \<and>
    strip ''  Buy milk  '' = ''Buy milk''"
proof (intro conjI impI allI)
  assume "get_list lid s = None \<or> strip ttl = []"
  then show "add_task e lid ttl s = (Inr None, s)"
    by (auto simp: add_task_def split: option.splits)
next
  assume a: "get_list lid s = Some a \<and> strip ttl \<noteq> []"
  let ?s1 = "s\<lparr>objs := (objs s)(a := (objs s a)\<lparr>tasks := tasks (objs s a) @ [task]\<rparr>)\<rparr>"
  have at: "add_task e lid ttl s = save_return e (Some task) ?s1"
    using a by (simp add: add_task_def TodoList_add_task_def task Let_def)
  show "objs s' a = (objs s a)\<lparr>tasks := tasks (objs s a) @ [task]\<rparr>"
    by (simp add: s' at save_return_memory)
  {
    fix r assume "fst (add_task e lid ttl s) = Inr r"
    then show "r = Some task" by (auto simp: at dest: save_return_Inr)
  }
  {
    assume w: "wf s \<and> io_ok e s"
    then have "io_ok e ?s1" "data_file ?s1 = Slash (data_dir ?s1) ''data.json''"
      by (simp_all add: io_ok_def wf_def)
    from save_return_ok [OF this, where r = "Some task"]
    have full: "add_task e lid ttl s
        = (Inr (Some task), ?s1\<lparr>files := (files ?s1)(data_file ?s1 \<mapsto> document ?s1)\<rparr>)"
      by (simp only: at)
    show "fst (add_task e lid ttl s) = Inr (Some task)" by (simp add: full)
    have "document s' = document ?s1"
      by (rule document_memory) (simp_all add: s' full)
    then show "files s' = (files s)(data_file s \<mapsto> document s')"
      by (simp add: s' full)
  }
next
  show "strip ''  Buy milk  '' = ''Buy milk''" by (rule strip_buy_milk)
qed

theorem add_task_appends_trimmed_witness:
  "tasks (objs (snd (add_task e0 ''u-2'' ''  Buy milk  '' s0)) 1)
     = [\<lparr>task_id = ''u-9'', title = ''Buy milk'', completed = False\<rparr>] \<and>
   fst (add_task e0 ''u-2'' ''  Buy milk  '' s0)
     = Inr (Some \<lparr>task_id = ''u-9'', title = ''Buy milk'', completed = False\<rparr>) \<and>
   add_task e0 ''u-2'' ''   '' s0 = (Inr None, s0) \<and>
   add_task e0 ''nope'' ''Buy milk'' s0 = (Inr None, s0)"
proof -
  let ?t = "\<lparr>task_id = ''u-9'', title = ''Buy milk'', completed = False\<rparr>"
  have g: "get_list ''u-2'' s0 = Some 1" by (simp add: get_list_def s0_def)
  have t: "?t = \<lparr>task_id = uuid e0, title = strip ''  Buy milk  '', completed = False\<rparr>"
    by (simp add: e0_def strip_buy_milk)
  have ne: "strip ''  Buy milk  '' \<noteq> []" by (simp add: strip_buy_milk)
  note th = add_task_appends_trimmed [OF t refl, of "''u-2''" s0 1]
  from th g ne s0_wf e0_io_ok
  have a: "objs (snd (add_task e0 ''u-2'' ''  Buy milk  '' s0)) 1
        = (objs s0 1)\<lparr>tasks := tasks (objs s0 1) @ [?t]\<rparr>"
    and b: "fst (add_task e0 ''u-2'' ''  Buy milk  '' s0) = Inr (Some ?t)"
    by blast+
  have c: "add_task e0 ''u-2'' ''   '' s0 = (Inr None, s0)"
    using add_task_appends_trimmed [OF refl refl, of "''u-2''" s0 "''   ''" e0] strip_blank
    by blast
  have d: "add_task e0 ''nope'' ''Buy milk'' s0 = (Inr None, s0)"
    using add_task_appends_trimmed [OF refl refl, of "''nope''" s0 "''Buy milk''" e0]
      get_list0_absent
    by blast
  have "tasks (objs s0 1) = []" by (simp add: s0_def)
  then have "tasks (objs (snd (add_task e0 ''u-2'' ''  Buy milk  '' s0)) 1) = [?t]"
    by (simp only: a) simp
  with b c d show ?thesis by blast
qed

section \<open>Toggling a task\<close>

lemma get_task_Some:
  "TodoList_get_task tid l = Some i \<Longrightarrow> i < length (tasks l) \<and> task_id (tasks l ! i) = tid"
proof -
  assume a: "TodoList_get_task tid l = Some i"
  then have i: "i = length (takeWhile (\<lambda>t. task_id t \<noteq> tid) (tasks l))" "i < length (tasks l)"
    by (auto simp: TodoList_get_task_def Let_def split: if_splits)
  from nth_length_takeWhile [of "\<lambda>t. task_id t \<noteq> tid" "tasks l"] i
  show ?thesis by auto
qed

lemma takeWhile_ids:
  "map task_id ts' = map task_id ts \<Longrightarrow>
     length (takeWhile (\<lambda>t. task_id t \<noteq> tid) ts') = length (takeWhile (\<lambda>t. task_id t \<noteq> tid) ts)"
proof (induction ts arbitrary: ts')
  case Nil
  then show ?case by simp
next
  case (Cons t ts)
  then obtain u us where "ts' = u # us" by (cases ts') auto
  with Cons show ?case by auto
qed

lemma get_task_ids:
  "map task_id (tasks l') = map task_id (tasks l) \<Longrightarrow>
     TodoList_get_task tid l' = TodoList_get_task tid l"
  using takeWhile_ids [of "tasks l'" "tasks l" tid] map_eq_imp_length_eq [of task_id "tasks l'" task_id "tasks l"]
  by (simp add: TodoList_get_task_def Let_def)

lemma get_list_ids:
  "lists s' = lists s \<Longrightarrow> (\<forall>a. list_id (objs s' a) = list_id (objs s a)) \<Longrightarrow>
     get_list lid s' = get_list lid s"
  by (simp add: get_list_def)

lemma toggle_found:
  assumes "get_list lid s = Some a" "TodoList_get_task tid (objs s a) = Some i"
  shows "toggle_task e lid tid s =
     save_return e True
       (s\<lparr>objs := (objs s)(a := (objs s a)
            \<lparr>tasks := (tasks (objs s a))
               [i := (tasks (objs s a) ! i)
                       \<lparr>completed := \<not> completed (tasks (objs s a) ! i)\<rparr>]\<rparr>)\<rparr>)"
  using assms by (simp add: toggle_task_def)

lemma io_ok_after_save:
  assumes "wf s" "io_ok e' s" "files s' = (files s)(data_file s \<mapsto> d)" "data_dir s' = data_dir s"
  shows "io_ok e' s'"
proof -
  from assms(2) obtain r where r: "r \<in> set (tmp_names e')"
    "files s (Slash (data_dir s) (''tmp'' @ r @ ''.tmp'')) = None"
    and f: "fault e' = NoFault \<or> fault e' = OpenFails"
    by (auto simp: io_ok_def)
  have "data_file s \<noteq> Slash (data_dir s) (''tmp'' @ r @ ''.tmp'')"
    using assms(1) by (simp add: wf_def)
  then have "files s' (Slash (data_dir s') (''tmp'' @ r @ ''.tmp'')) = None"
    using r(2) assms(3,4) by simp
  with r(1) f show ?thesis unfolding io_ok_def by blast
qed

text \<open>
  Claim C7. \<^verbatim>\<open>toggle_task\<close> returns \<^verbatim>\<open>False\<close>, changing nothing, when the list or the
  task is not found; otherwise it flips the completed flag of that task (the first one of
  the list with the id) and, whenever it returns, returns \<^verbatim>\<open>True\<close>. A second call on
  the same task finds it again and flips the flag back: the flag, and with it every list
  object, is as before the two calls; and when the saves go through, both calls return
  \<^verbatim>\<open>True\<close>.
\<close>

theorem toggle_task_twice:
  assumes s1: "s1 = snd (toggle_task e lid tid s)"
    and s2: "s2 = snd (toggle_task e' lid tid s1)"
  shows
   "(get_list lid s = None \<longrightarrow> toggle_task e lid tid s = (Inr False, s)) \<and>
    (get_list lid s = Some a \<and> TodoList_get_task tid (objs s a) = None \<longrightarrow>
       toggle_task e lid tid s = (Inr False, s)) \<and>
    (get_list lid s = Some a \<and> TodoList_get_task tid (objs s a) = Some i \<longrightarrow>
       tasks (objs s1 a) = (tasks (objs s a))
          [i := (tasks (objs s a) ! i)\<lparr>completed := \<not> completed (tasks (objs s a) ! i)\<rparr>] \<and>
       completed (tasks (objs s1 a) ! i) = (\<not> completed (tasks (objs s a) ! i)) \<and>
       completed (tasks (objs s2 a) ! i) = completed (tasks (objs s a) ! i) \<and>
       objs s2 = objs s \<and> lists s2 = lists s \<and>
       (\<forall>r. fst (toggle_task e lid tid s) = Inr r \<longrightarrow> r = True) \<and>
       (\<forall>r. fst (toggle_task e' lid tid s1) = Inr r \<longrightarrow> r = True) \<and>
       (wf s \<and> io_ok e s \<and> io_ok e' s \<longrightarrow>
          fst (toggle_task e lid tid s) = Inr True \<and>
          fst (toggle_task e' lid tid s1) = Inr True))"
proof (intro conjI impI)
  assume "get_list lid s = None"
  then show "toggle_task e lid tid s = (Inr False, s)" by (simp add: toggle_task_def)
next
  assume "get_list lid s = Some a \<and> TodoList_get_task tid (objs s a) = None"
  then show "toggle_task e lid tid s = (Inr False, s)" by (simp add: toggle_task_def)
next
  assume f: "get_list lid s = Some a \<and> TodoList_get_task tid (objs s a) = Some i"
  let ?t = "tasks (objs s a) ! i"
  let ?l1 = "(objs s a)\<lparr>tasks := (tasks (objs s a))[i := ?t\<lparr>completed := \<not> completed ?t\<rparr>]\<rparr>"
  let ?m1 = "s\<lparr>objs := (objs s)(a := ?l1)\<rparr>"
  have i: "i < length (tasks (objs s a))" using f get_task_Some by blast
  have t1: "toggle_task e lid tid s = save_return e True ?m1"
    using f by (simp add: toggle_found)
  have o1: "objs s1 = (objs s)(a := ?l1)" and l1: "lists s1 = lists s"
    and d1: "data_dir s1 = data_dir s" "data_file s1 = data_file s"
    by (simp_all add: s1 t1 save_return_memory)
  have g1: "get_list lid s1 = Some a"
    using f get_list_ids [of s1 s lid] by (simp add: o1 l1)
  have ids: "map task_id (tasks ?l1) = map task_id (tasks (objs s a))"
    using i by (auto simp: list_eq_iff_nth_eq nth_list_update)
  have k1: "TodoList_get_task tid (objs s1 a) = Some i"
    using f get_task_ids [OF ids, of tid] by (simp add: o1)
  have restored: "(objs s1 a)\<lparr>tasks := (tasks (objs s1 a))
        [i := (tasks (objs s1 a) ! i)\<lparr>completed := \<not> completed (tasks (objs s1 a) ! i)\<rparr>]\<rparr>
      = objs s a"
    using i by (simp add: o1)
  have t2: "toggle_task e' lid tid s1 = save_return e' True (s1\<lparr>objs := (objs s1)(a := objs s a)\<rparr>)"
    using toggle_found [OF g1 k1, of e'] by (simp only: restored)
  have o2: "objs s2 = objs s" and l2: "lists s2 = lists s"
    by (simp_all add: s2 t2 save_return_memory o1 l1)
  show "tasks (objs s1 a) = (tasks (objs s a))[i := ?t\<lparr>completed := \<not> completed ?t\<rparr>]"
    by (simp add: o1)
  show "completed (tasks (objs s1 a) ! i) = (\<not> completed ?t)"
    using i by (simp add: o1)
  show "completed (tasks (objs s2 a) ! i) = completed ?t" by (simp add: o2)
  show "objs s2 = objs s" by (rule o2)
  show "lists s2 = lists s" by (rule l2)
  show "\<forall>r. fst (toggle_task e lid tid s) = Inr r \<longrightarrow> r = True"
    by (auto simp: t1 dest: save_return_Inr)
  show "\<forall>r. fst (toggle_task e' lid tid s1) = Inr r \<longrightarrow> r = True"
    by (auto simp: t2 dest: save_return_Inr)
  {
    assume w: "wf s \<and> io_ok e s \<and> io_ok e' s"
    then have "io_ok e ?m1" "data_file ?m1 = Slash (data_dir ?m1) ''data.json''"
      by (simp_all add: io_ok_def wf_def)
    from save_return_ok [OF this, where r = True]
    have full: "toggle_task e lid tid s
        = (Inr True, ?m1\<lparr>files := (files ?m1)(data_file ?m1 \<mapsto> document ?m1)\<rparr>)"
      by (simp only: t1)
    show "fst (toggle_task e lid tid s) = Inr True" by (simp add: full)
    have fs1: "files s1 = (files s)(data_file s \<mapsto> document ?m1)"
      by (simp add: s1 full)
    have io1: "io_ok e' s1"
      using io_ok_after_save [OF _ _ fs1 d1(1)] w by blast
    let ?m2 = "s1\<lparr>objs := (objs s1)(a := objs s a)\<rparr>"
    have "io_ok e' ?m2" "data_file ?m2 = Slash (data_dir ?m2) ''data.json''"
      using io1 w d1 by (simp_all add: io_ok_def wf_def)
    from save_return_ok [OF this, where r = True]
    show "fst (toggle_task e' lid tid s1) = Inr True"
      by (simp only: t2 fst_conv)
  }
qed

lemma get_task0_first: "TodoList_get_task ''t-1'' (objs s0 0) = Some 0"
  by (simp add: TodoList_get_task_def s0_def)

theorem toggle_task_twice_witness:
  "fst (toggle_task e0 ''u-1'' ''t-1'' s0) = Inr True \<and>
   fst (toggle_task e0 ''u-1'' ''t-1'' (snd (toggle_task e0 ''u-1'' ''t-1'' s0))) = Inr True \<and>
   \<not> completed (tasks (objs s0 0) ! 0) \<and>
   completed (tasks (objs (snd (toggle_task e0 ''u-1'' ''t-1'' s0)) 0) ! 0) \<and>
   \<not> completed (tasks (objs (snd (toggle_task e0 ''u-1'' ''t-1''
        (snd (toggle_task e0 ''u-1'' ''t-1'' s0)))) 0) ! 0) \<and>
   toggle_task e0 ''nope'' ''t-1'' s0 = (Inr False, s0) \<and>
   toggle_task e0 ''u-1'' ''nope'' s0 = (Inr False, s0)"
proof -
  have c0: "\<not> completed (tasks (objs s0 0) ! 0)" by (simp add: s0_def)
  note th = toggle_task_twice [OF refl refl, where lid = "''u-1''" and s = s0 and a = 0
      and tid = "''t-1''" and i = 0 and e = e0 and e' = e0]
  from th get_list0_first get_task0_first s0_wf e0_io_ok c0
  have a: "fst (toggle_task e0 ''u-1'' ''t-1'' s0) = Inr True"
    and b: "fst (toggle_task e0 ''u-1'' ''t-1'' (snd (toggle_task e0 ''u-1'' ''t-1'' s0)))
        = Inr True"
    and c: "completed (tasks (objs (snd (toggle_task e0 ''u-1'' ''t-1'' s0)) 0) ! 0)"
    and d: "\<not> completed (tasks (objs (snd (toggle_task e0 ''u-1'' ''t-1''
        (snd (toggle_task e0 ''u-1'' ''t-1'' s0)))) 0) ! 0)"
    by blast+
  have e: "toggle_task e0 ''nope'' ''t-1'' s0 = (Inr False, s0)"
    using toggle_task_twice [OF refl refl, where lid = "''nope''" and s = s0 and a = 0
      and tid = "''t-1''" and i = 0 and e = e0 and e' = e0] get_list0_absent
    by blast
  have f: "toggle_task e0 ''u-1'' ''nope'' s0 = (Inr False, s0)"
    using toggle_task_twice [OF refl refl, where lid = "''u-1''" and s = s0 and a = 0
      and tid = "''nope''" and i = 0 and e = e0 and e' = e0]
      get_list0_first get_task0_absent
    by blast
  from a b c0 c d e f show ?thesis by blast
qed

section \<open>The lists an operation is not addressed to\<close>

lemma get_list_index:
  assumes "get_list lid s = Some a"
  shows "length (takeWhile (\<lambda>b. list_id (objs s b) \<noteq> lid) (lists s)) < length (lists s) \<and>
     lists s ! length (takeWhile (\<lambda>b. list_id (objs s b) \<noteq> lid) (lists s)) = a \<and>
     take (length (takeWhile (\<lambda>b. list_id (objs s b) \<noteq> lid) (lists s))) (lists s)
       @ drop (Suc (length (takeWhile (\<lambda>b. list_id (objs s b) \<noteq> lid) (lists s)))) (lists s)
       = remove1 a (lists s)"
  using takeWhile_find_Some [of "\<lambda>b. list_id (objs s b) = lid" "lists s" a] assms
  by (simp add: get_list_def)

lemma exec_frame:
  assumes tgt: "target c = Some lid" and found: "get_list lid s = Some a"
  shows "(\<forall>b. b \<noteq> a \<longrightarrow> objs (snd (exec e c s)) b = objs s b) \<and>
     (c = DeleteList lid \<longrightarrow> lists (snd (exec e c s)) = remove1 a (lists s) \<and>
        objs (snd (exec e c s)) = objs s) \<and>
     (c \<noteq> DeleteList lid \<longrightarrow> lists (snd (exec e c s)) = lists s)"
proof -
  note rw = Let_def snd_save_return save_memory
  note ix = get_list_index [OF found]
  show ?thesis
  proof (cases c)
    case (CreateList nm)
    with tgt show ?thesis by simp
  next
    case (DeleteList l)
    with tgt found ix show ?thesis
      by (auto simp: delete_list_def rw)
  next
    case (RenameList l n)
    with tgt found show ?thesis
      by (auto simp: rename_list_def rw)
  next
    case (AddTask l t)
    with tgt found show ?thesis
      by (auto simp: add_task_def TodoList_add_task_def rw)
  next
    case (UpdateTask l tid t)
    with tgt found show ?thesis
      by (auto simp: update_task_def rw split: option.splits)
  next
    case (DeleteTask l tid)
    with tgt found show ?thesis
      by (auto simp: delete_task_def rw split: prod.splits)
  next
    case (ToggleTask l tid)
    with tgt found show ?thesis
      by (auto simp: toggle_task_def rw split: option.splits)
  qed
qed

text \<open>
  Claim C10. Take an operation addressed to one list (\<^verbatim>\<open>delete_list\<close>,
  \<^verbatim>\<open>rename_list\<close>, \<^verbatim>\<open>add_task\<close>, \<^verbatim>\<open>update_task\<close>, \<^verbatim>\<open>delete_task\<close>,
  \<^verbatim>\<open>toggle_task\<close>) whose list id is found, at position \<open>i\<close> of the collection. Then
  every list object but the one found is as before, with its id, name and tasks.
  \<^verbatim>\<open>delete_list\<close> takes position \<open>i\<close> out of the collection and leaves the others in
  their order; every other operation leaves the sequence as it is, so that each position
  but \<open>i\<close> holds the same list as before. This holds whether the call returns or raises.
\<close>

theorem other_lists_unchanged:
  assumes tgt: "target c = Some lid" and found: "get_list lid s = Some a"
    and i: "i = length (takeWhile (\<lambda>b. list_id (objs s b) \<noteq> lid) (lists s))"
    and s': "s' = snd (exec e c s)"
  shows "i < length (lists s) \<and> lists s ! i = a \<and>
     (\<forall>b. b \<noteq> a \<longrightarrow> objs s' b = objs s b) \<and>
     (c = DeleteList lid \<longrightarrow>
        lists s' = remove1 a (lists s) \<and>
        collection s' = take i (collection s) @ drop (Suc i) (collection s)) \<and>
     (c \<noteq> DeleteList lid \<longrightarrow>
        lists s' = lists s \<and> length (collection s') = length (collection s) \<and>
        (wf s \<longrightarrow> (\<forall>j < length (collection s). j \<noteq> i \<longrightarrow>
                      collection s' ! j = collection s ! j)))"
proof -
  note ix = get_list_index [OF found, folded i]
  note fr = exec_frame [OF tgt found, of e, folded s']
  have del: "c = DeleteList lid \<longrightarrow>
        collection s' = take i (collection s) @ drop (Suc i) (collection s)"
  proof
    assume c: "c = DeleteList lid"
    with fr ix have "lists s' = take i (lists s) @ drop (Suc i) (lists s)" "objs s' = objs s"
      by simp_all
    then show "collection s' = take i (collection s) @ drop (Suc i) (collection s)"
      by (simp add: collection_def take_map drop_map)
  qed
  have keep: "c \<noteq> DeleteList lid \<longrightarrow> wf s \<longrightarrow>
        (\<forall>j < length (collection s). j \<noteq> i \<longrightarrow> collection s' ! j = collection s ! j)"
  proof (intro impI allI)
    fix j
    assume c: "c \<noteq> DeleteList lid" and w: "wf s" and j: "j < length (collection s)" "j \<noteq> i"
    have d: "distinct (lists s)" using w by (simp add: wf_def)
    have "lists s ! j \<noteq> a"
      using ix j d by (auto simp: collection_def nth_eq_iff_index_eq)
    then show "collection s' ! j = collection s ! j"
      using fr c j by (simp add: collection_def)
  qed
  from ix fr del keep show ?thesis by (auto simp: collection_def)
qed

lemma index0: "length (takeWhile (\<lambda>b. list_id (objs s0 b) \<noteq> ''u-1'') (lists s0)) = 0"
  by (simp add: s0_def)

theorem other_lists_unchanged_witness:
  "objs (snd (exec e0 (RenameList ''u-1'' ''Home'') s0)) 1
     = \<lparr>list_id = ''u-2'', name = ''List 3'', tasks = []\<rparr> \<and>
   lists (snd (exec e0 (RenameList ''u-1'' ''Home'') s0)) = [0, 1] \<and>
   collection (snd (exec e0 (RenameList ''u-1'' ''Home'') s0)) ! 1
     = \<lparr>list_id = ''u-2'', name = ''List 3'', tasks = []\<rparr> \<and>
   lists (snd (exec e0 (DeleteList ''u-1'') s0)) = [1] \<and>
   collection (snd (exec e0 (DeleteList ''u-1'') s0))
     = [\<lparr>list_id = ''u-2'', name = ''List 3'', tasks = []\<rparr>]"
proof -
  let ?r = "RenameList ''u-1'' ''Home''"
  let ?d = "DeleteList ''u-1''"
  have c0: "collection s0 ! 1 = \<lparr>list_id = ''u-2'', name = ''List 3'', tasks = []\<rparr>"
    "length (collection s0) = 2" "objs s0 1 = \<lparr>list_id = ''u-2'', name = ''List 3'', tasks = []\<rparr>"
    "lists s0 = [0, 1]"
    "take 0 (collection s0) @ drop (Suc 0) (collection s0)
       = [\<lparr>list_id = ''u-2'', name = ''List 3'', tasks = []\<rparr>]"
    by (simp_all add: collection_def s0_def)
  note r = other_lists_unchanged [OF _ get_list0_first index0 [symmetric] refl,
      where c = ?r and e = e0]
  note d = other_lists_unchanged [OF _ get_list0_first index0 [symmetric] refl,
      where c = ?d and e = e0]
  have r1: "objs (snd (exec e0 ?r s0)) 1 = objs s0 1"
    and r2: "lists (snd (exec e0 ?r s0)) = lists s0"
    and r3: "collection (snd (exec e0 ?r s0)) ! 1 = collection s0 ! 1"
    using r s0_wf c0(2) by auto
  have d1: "lists (snd (exec e0 ?d s0)) = remove1 0 (lists s0)"
    and d2: "collection (snd (exec e0 ?d s0))
        = take 0 (collection s0) @ drop (Suc 0) (collection s0)"
    using d by auto
  show ?thesis
    by (simp only: r1 r2 r3 d1 d2 c0) simp
qed

section \<open>The sequence that get_lists returns\<close>

lemma exec_create_memory:
  "lists (snd (exec e (CreateList nm) s)) = lists s @ [next_addr s] \<and>
   (\<forall>b. b \<noteq> next_addr s \<longrightarrow> objs (snd (exec e (CreateList nm) s)) b = objs s b)"
  by (simp add: create_list_def Let_def snd_save_return save_memory)

lemma exec_delete_memory: "objs (snd (exec e (DeleteList lid) s)) = objs s"
  by (simp add: delete_list_def Let_def snd_save_return save_memory)

lemma exec_lists_kept:
  assumes "\<forall>nm. c \<noteq> CreateList nm" "\<forall>lid. c \<noteq> DeleteList lid"
  shows "lists (snd (exec e c s)) = lists s"
  using assms
  by (cases c)
     (auto simp: rename_list_def add_task_def update_task_def delete_task_def toggle_task_def
        TodoList_add_task_def Let_def snd_save_return save_memory
        split: option.splits prod.splits)

text \<open>
  Claim C4, as amended. \<^verbatim>\<open>get_lists\<close> returns a new sequence of the same list objects,
  in the order of the collection (\<^verbatim>\<open>self._lists.copy()\<close>). After a later
  \<^verbatim>\<open>create_list\<close> or \<^verbatim>\<open>delete_list\<close>, what is seen through that sequence is still the
  collection as it was when \<^verbatim>\<open>get_lists\<close> was called. After a later \<^verbatim>\<open>rename_list\<close>,
  \<^verbatim>\<open>add_task\<close>, \<^verbatim>\<open>update_task\<close>, \<^verbatim>\<open>delete_task\<close> or \<^verbatim>\<open>toggle_task\<close>, what is seen
  through it is the collection as it is now: these change a list object in place, and
  the sequence holds that object.
\<close>

theorem snapshot_is_shallow:
  assumes w: "wf s" and snap: "snap = get_lists s" and s': "s' = snd (exec e c s)"
  shows "(\<forall>nm. c = CreateList nm \<longrightarrow> view s' snap = collection s) \<and>
     (\<forall>lid. c = DeleteList lid \<longrightarrow> view s' snap = collection s) \<and>
     ((\<forall>nm. c \<noteq> CreateList nm) \<and> (\<forall>lid. c \<noteq> DeleteList lid) \<longrightarrow>
        view s' snap = collection s')"
proof (intro conjI allI impI)
  fix nm assume c: "c = CreateList nm"
  have "\<forall>b\<in>set (lists s). b \<noteq> next_addr s"
    using w by (auto simp: wf_def list_all_iff)
  then show "view s' snap = collection s"
    using exec_create_memory [of e nm s]
    by (simp add: view_def collection_def snap get_lists_def s' c)
next
  fix lid assume c: "c = DeleteList lid"
  show "view s' snap = collection s"
    using exec_delete_memory [of e lid s]
    by (simp add: view_def collection_def snap get_lists_def s' c)
next
  assume "(\<forall>nm. c \<noteq> CreateList nm) \<and> (\<forall>lid. c \<noteq> DeleteList lid)"
  then have "lists s' = lists s"
    unfolding s' using exec_lists_kept by blast
  then show "view s' snap = collection s'"
    by (simp add: view_def collection_def snap get_lists_def)
qed

theorem snapshot_is_shallow_witness:
  "view (snd (exec e0 (CreateList None) s0)) (get_lists s0) = collection s0 \<and>
   view (snd (exec e0 (DeleteList ''u-1'') s0)) (get_lists s0) = collection s0 \<and>
   view (snd (exec e0 (RenameList ''u-1'' ''Home'') s0)) (get_lists s0)
     = collection (snd (exec e0 (RenameList ''u-1'' ''Home'') s0)) \<and>
   length (get_lists s0) = 2 \<and>
   length (collection (snd (exec e0 (CreateList None) s0))) = 3 \<and>
   length (collection (snd (exec e0 (DeleteList ''u-1'') s0))) = 1"
proof -
  note th = snapshot_is_shallow [OF s0_wf refl refl, where e = e0]
  have a: "view (snd (exec e0 (CreateList None) s0)) (get_lists s0) = collection s0"
    using th [of "CreateList None"] by blast
  have b: "view (snd (exec e0 (DeleteList ''u-1'') s0)) (get_lists s0) = collection s0"
    using th [of "DeleteList ''u-1''"] by blast
  have c: "view (snd (exec e0 (RenameList ''u-1'' ''Home'') s0)) (get_lists s0)
      = collection (snd (exec e0 (RenameList ''u-1'' ''Home'') s0))"
    using th [of "RenameList ''u-1'' ''Home''"] by simp
  have d: "length (get_lists s0) = 2" by (simp add: get_lists_def s0_def)
  have e: "length (collection (snd (exec e0 (CreateList None) s0))) = 3"
    using exec_create_memory [of e0 None s0] by (simp add: collection_def s0_def)
  have f: "length (collection (snd (exec e0 (DeleteList ''u-1'') s0))) = 1"
    using exec_frame [OF _ get_list0_first, where c = "DeleteList ''u-1''" and e = e0]
    by (simp add: collection_def) (simp add: s0_def)
  from a b c d e f show ?thesis by blast
qed

lemma rename_list0:
  "rename_list e0 ''u-1'' ''Home'' s0 =
     (Inr True,
      s0\<lparr>objs := (objs s0)(0 := (objs s0 0)\<lparr>name := ''Home''\<rparr>),
         files := (files s0)(data_file s0 \<mapsto>
            document (s0\<lparr>objs := (objs s0)(0 := (objs s0 0)\<lparr>name := ''Home''\<rparr>)\<rparr>))\<rparr>)"
proof -
  let ?s1 = "s0\<lparr>objs := (objs s0)(0 := (objs s0 0)\<lparr>name := ''Home''\<rparr>)\<rparr>"
  have "io_ok e0 ?s1" "data_file ?s1 = Slash (data_dir ?s1) ''data.json''"
    using e0_io_ok s0_wf by (simp_all add: io_ok_def wf_def)
  from save_return_ok [OF this, where r = True] show ?thesis
    by (simp add: rename_list_def get_list0_first strip_Home)
qed

text \<open>
  So the sequence does not keep the lists as they were: after \<^verbatim>\<open>get_lists\<close>, renaming
  \<^verbatim>\<open>List 1\<close> to \<^verbatim>\<open>Home\<close> shows \<^verbatim>\<open>Home\<close> through the sequence returned before.
\<close>

theorem snapshot_shows_rename:
  "fst (rename_list e0 ''u-1'' ''Home'' s0) = Inr True \<and>
   map name (collection s0) = [''List 1'', ''List 3''] \<and>
   map name (view (snd (rename_list e0 ''u-1'' ''Home'' s0)) (get_lists s0))
     = [''Home'', ''List 3''] \<and>
   view (snd (rename_list e0 ''u-1'' ''Home'' s0)) (get_lists s0) \<noteq> collection s0"
proof -
  note r = rename_list0
  have a: "map name (collection s0) = [''List 1'', ''List 3'']"
    by (simp add: collection_def s0_def)
  have b: "map name (view (snd (rename_list e0 ''u-1'' ''Home'' s0)) (get_lists s0))
     = [''Home'', ''List 3'']"
    by (simp only: r snd_conv) (simp add: view_def get_lists_def s0_def)
  from a b have "view (snd (rename_list e0 ''u-1'' ''Home'' s0)) (get_lists s0) \<noteq> collection s0"
    by auto
  with a b r show ?thesis by simp
qed

section \<open>Constructing a Storage\<close>

lemma load_recovers:
  assumes "files s (data_file s) = None \<or> fault e = OpenFails \<or>
     (\<exists>content. files s (data_file s) = Some content \<and>
        (json_load e content = Inl JSONDecodeError \<or> json_load e content = Inl OSError))"
  shows "load e s = (None, s\<lparr>lists := []\<rparr>)"
  using assms by (auto simp: load_def try_load_def split: option.splits)

lemma init_recovers:
  assumes "fault e \<noteq> MkdirFails"
    and "fs (Slash d ''data.json'') = None \<or> fault e = OpenFails \<or>
     (\<exists>content. fs (Slash d ''data.json'') = Some content \<and>
        (json_load e content = Inl JSONDecodeError \<or> json_load e content = Inl OSError))"
  shows "Storage_init e (Some d) h n fs =
     Inr \<lparr>data_dir = d, data_file = Slash d ''data.json'', lists = [], objs = h,
          next_addr = n, files = fs\<rparr>"
proof -
  let ?s = "\<lparr>data_dir = d, data_file = Slash d ''data.json'', lists = [], objs = h,
          next_addr = n, files = fs\<rparr>"
  have "load e ?s = (None, ?s\<lparr>lists := []\<rparr>)"
    by (rule load_recovers) (use assms(2) in simp)
  then show ?thesis
    using assms(1) by (simp add: Storage_init_def ensure_data_dir_def)
qed

text \<open>
  Claim C2 fails on the code. \<^verbatim>\<open>_load\<close> catches \<^verbatim>\<open>json.JSONDecodeError\<close> and
  \<^verbatim>\<open>IOError\<close> only. A data file that holds valid JSON which is no mapping (here
  \<^verbatim>\<open>[]\<close>) makes \<^verbatim>\<open>data.get\<close> raise \<^verbatim>\<open>AttributeError\<close>, and a data file that is no
  UTF-8 text makes the read raise \<^verbatim>\<open>UnicodeDecodeError\<close>; neither is caught, so
  constructing the \<^verbatim>\<open>Storage\<close> raises.
\<close>

theorem init_raises_on_file_content:
  "Storage_init e_array (Some (Path ''/d'')) (objs s0) 2 fs_array = Inl AttributeError \<and>
   Storage_init e_bytes (Some (Path ''/d'')) (objs s0) 2 fs_bytes = Inl UnicodeDecodeError"
  by (simp add: Storage_init_def ensure_data_dir_def load_def try_load_def
      e_array_def e_bytes_def e0_def fs_array_def fs_bytes_def)

section \<open>Where the data is kept and how it is written\<close>

lemma init_data_dir:
  assumes "Storage_init e dir h n fs = Inr s"
  shows "data_file s = Slash (data_dir s) ''data.json'' \<and>
    (\<forall>d. dir = Some d \<longrightarrow> data_dir s = d) \<and>
    (dir = None \<and> XDG_DATA_HOME e = None \<longrightarrow>
       data_dir s = Slash (Path (home_share e)) ''simple-todo'') \<and>
    (\<forall>v. dir = None \<and> XDG_DATA_HOME e = Some v \<longrightarrow>
       data_dir s = Slash (Path v) ''simple-todo'')"
proof -
  have ld: "\<And>s1 s2. load e s1 = (None, s2) \<Longrightarrow>
      data_dir s2 = data_dir s1 \<and> data_file s2 = data_file s1"
    by (auto simp: load_def alloc_all_def Let_def split: option.splits sum.splits if_splits)
  from assms show ?thesis
    by (auto simp: Storage_init_def Let_def split: option.splits prod.splits dest!: ld)
qed

lemma escape_char_above_127: "127 < (of_char c :: nat) \<Longrightarrow> escape_char c = [c]"
  by (simp add: escape_char_def Let_def)

lemma document_no_lists:
  "lists s = [] \<Longrightarrow>
     document s = [CHR ''{'', char_of (10 :: nat), CHR '' '', CHR '' '', char_of (34 :: nat)]
        @ ''lists'' @ [char_of (34 :: nat)] @ '': []'' @ [char_of (10 :: nat), CHR ''}'']"
  by (simp add: document_def collection_def json_string_def newline_indent_def escape_char_def
      numeral_2_eq_2)

text \<open>
  Claim C9 fails on the code where the environment variable is set and empty: the
  variable is read with \<^verbatim>\<open>os.environ.get("XDG_DATA_HOME", default)\<close>, which gives the
  default only when the variable is not set. With the variable set to the empty text the
  data directory is the relative path \<^verbatim>\<open>simple-todo\<close>, not \<^verbatim>\<open>simple-todo\<close> under the
  expansion of \<^verbatim>\<open>~/.local/share\<close>.
\<close>

theorem empty_XDG_DATA_HOME:
  "Storage_init (e0\<lparr>XDG_DATA_HOME := Some ''''\<rparr>) None (objs s0) 2 Map.empty
     = Inr \<lparr>data_dir = Slash (Path '''') ''simple-todo'',
            data_file = Slash (Slash (Path '''') ''simple-todo'') ''data.json'',
            lists = [], objs = objs s0, next_addr = 2, files = Map.empty\<rparr> \<and>
   home_share (e0\<lparr>XDG_DATA_HOME := Some ''''\<rparr>) = ''/home/u/.local/share'' \<and>
   Slash (Path '''') ''simple-todo'' \<noteq> Slash (Path ''/home/u/.local/share'') ''simple-todo''"
  by (simp add: Storage_init_def ensure_data_dir_def load_def e0_def Let_def)

end
